theory Spec2Isabelle
  imports Complex_Main "HOL-Library.Multiset"
begin

section \<open>Python values shared by all components\<close>

text \<open>
  The exceptions the modelled functions can raise. Every raise, failed assertion and
  out-of-range access of the source is a value \<open>Inl e\<close> of the result.
\<close>

datatype py_error =
  ZeroDivisionError | IndexError | AssertionError | ValueError | TypeError | KeyError

text \<open>
  Python slices \<open>xs[:k]\<close> and \<open>xs[k:]\<close> on a list. A negative bound counts from the
  end; a bound beyond either end is clipped (slices never raise).
\<close>

definition slice_to :: "int \<Rightarrow> 'a list \<Rightarrow> 'a list" where
  "slice_to k xs = (if 0 \<le> k then take (nat k) xs else take (length xs - nat (- k)) xs)"

definition slice_from :: "int \<Rightarrow> 'a list \<Rightarrow> 'a list" where
  "slice_from k xs = (if 0 \<le> k then drop (nat k) xs else drop (length xs - nat (- k)) xs)"

text \<open>
  Indexing a numpy array with a list of indices, \<open>cv_names[ixs]\<close>: the selected entries
  in the order of \<open>ixs\<close>, IndexError when an index is out of bounds. The index lists of
  the fold generator hold natural numbers only.
\<close>

definition fancy_index :: "'a list \<Rightarrow> nat list \<Rightarrow> py_error + 'a list" where
  "fancy_index arr ixs =
     (if list_all (\<lambda>i. i < length arr) ixs then Inr (map (\<lambda>i. arr ! i) ixs)
      else Inl IndexError)"

section \<open>fold_generator\<close>

text \<open>
  The object state of class \<open>fold_generator\<close>. Field \<open>fold_no\<close> is the attribute
  \<open>fold\<close>, \<open>l_len\<close> is \<open>l\<close> and \<open>mod_len\<close> is \<open>mod\<close> (renamed because the short names
  are constants of the library). \<open>slicer\<close> is None and \<open>l\<close>, \<open>mod\<close> are absent after
  \<open>__init__\<close>; \<open>get_fold_names\<close> writes all three before it reads them, so they are
  integers here, 0 after construction.
\<close>

record fold_generator =
  tr_ix :: "nat list"
  val_ix :: "nat list"
  te_ix :: "nat list"
  slicer :: int
  missing :: int
  fold_no :: int
  len_data :: int
  n_splits :: int
  myseed :: int
  boost_val :: int
  l_len :: nat
  mod_len :: int

definition fold_generator_init :: "int \<Rightarrow> int \<Rightarrow> int \<Rightarrow> fold_generator" where
  "fold_generator_init seed n len =
     \<lparr>tr_ix = [], val_ix = [], te_ix = [], slicer = 0, missing = 0, fold_no = 0,
      len_data = len, n_splits = n, myseed = seed, boost_val = 0, l_len = 0, mod_len = 0\<rparr>"

text \<open>
  \<open>init_indices\<close>. \<open>len(t) / float(n_splits)\<close> raises ZeroDivisionError for
  \<open>n_splits = 0\<close>; otherwise \<open>int(np.ceil(...))\<close> is the ceiling of the quotient
  (exact in double precision for every length below \<open>2^53\<close>). Python's \<open>%\<close> takes
  the sign of the divisor, as \<open>mod\<close> on \<open>int\<close> does.
\<close>

definition init_indices :: "fold_generator \<Rightarrow> py_error + fold_generator" where
  "init_indices g =
     (let t = [0..<l_len g] in
      if n_splits g = 0 then Inl ZeroDivisionError
      else
        let split_length = - ((- int (length t)) div n_splits g);
            g1 = g\<lparr>slicer := split_length\<rparr>;
            g2 = g1\<lparr>mod_len := int (length t) mod n_splits g1\<rparr>;
            g3 = (if mod_len g2 > 0 then g2\<lparr>missing := n_splits g2 - mod_len g2\<rparr> else g2);
            g4 = g3\<lparr>te_ix := slice_to (slicer g3) t\<rparr>;
            g5 = g4\<lparr>tr_ix := slice_from (slicer g4) t\<rparr>;
            g6 = g5\<lparr>val_ix := slice_to (slicer g5) (tr_ix g5)\<rparr>;
            g7 = g6\<lparr>tr_ix := slice_from (slicer g6) (tr_ix g6)\<rparr>
        in Inr g7)"

text \<open>
  \<open>new_fold\<close>. \<open>temp\<close> aliases the list \<open>te_ix\<close> and \<open>temp += ...\<close> extends that list
  in place; \<open>te_ix\<close> is reassigned right after and nothing else holds the list, so the
  extension is visible through \<open>temp\<close> only.
\<close>

definition new_fold :: "fold_generator \<Rightarrow> fold_generator" where
  "new_fold g =
     (let slicer' = (if fold_no g < missing g then slicer g - 1 else slicer g);
          shift = (fold_no g = n_splits g - 2 \<and> mod_len g = 1);
          temp = (if shift then te_ix g @ slice_from (- 1) (val_ix g) else te_ix g);
          g1 = (if shift then g\<lparr>val_ix := slice_to (- 1) (val_ix g)\<rparr> else g);
          g2 = g1\<lparr>te_ix := val_ix g1\<rparr>;
          g3 = g2\<lparr>val_ix := slice_to slicer' (tr_ix g2)\<rparr>;
          g4 = g3\<lparr>tr_ix := slice_from slicer' (tr_ix g3) @ temp\<rparr>
      in g4)"

text \<open>
  One entry of \<open>names_list\<close>: \<open>[train_names, val_names, test_names, fold]\<close>.
\<close>

type_synonym fold_names = "nat list \<times> nat list \<times> nat list \<times> int"

definition train_names :: "fold_names \<Rightarrow> nat list" where
  "train_names f = fst f"

definition val_names :: "fold_names \<Rightarrow> nat list" where
  "val_names f = fst (snd f)"

definition test_names :: "fold_names \<Rightarrow> nat list" where
  "test_names f = fst (snd (snd f))"

definition fold_index :: "fold_names \<Rightarrow> int" where
  "fold_index f = snd (snd (snd f))"

text \<open>
  The loop \<open>for split in range(self.n_splits)\<close> of \<open>get_fold_names\<close>, with the number
  of remaining iterations as first argument.
\<close>

fun fold_loop :: "nat \<Rightarrow> nat list \<Rightarrow> fold_generator \<Rightarrow> fold_names list
    \<Rightarrow> py_error + (fold_names list \<times> fold_generator)" where
  "fold_loop 0 cv_names g names_list = Inr (names_list, g)"
| "fold_loop (Suc k) cv_names g names_list =
     (case fancy_index cv_names (tr_ix g) of Inl e \<Rightarrow> Inl e | Inr trn \<Rightarrow>
      case fancy_index cv_names (val_ix g) of Inl e \<Rightarrow> Inl e | Inr valn \<Rightarrow>
      case fancy_index cv_names (te_ix g) of Inl e \<Rightarrow> Inl e | Inr ten \<Rightarrow>
        (let names_list' = names_list @ [(trn, valn, ten, fold_no g)];
             g1 = new_fold g;
             g2 = g1\<lparr>fold_no := fold_no g1 + 1\<rparr>
         in fold_loop k cv_names g2 names_list'))"

text \<open>
  \<open>get_fold_names\<close>. \<open>np.random.RandomState(seed)\<close> raises ValueError unless
  \<open>0 \<le> seed < 2^32\<close>. The permutation that \<open>rgen.shuffle\<close> produces is a function of
  the seed and the array and is the parameter \<open>shuffle\<close>; \<open>np.arange\<close> of a negative
  length is empty.
\<close>

definition get_fold_names :: "(int \<Rightarrow> nat list \<Rightarrow> nat list) \<Rightarrow> fold_generator
    \<Rightarrow> py_error + (fold_names list \<times> fold_generator)" where
  "get_fold_names shuffle g =
     (if myseed g < 0 \<or> 2 ^ 32 \<le> myseed g then Inl ValueError
      else
        let cv_names = shuffle (myseed g) [0..<nat (len_data g)];
            g1 = g\<lparr>l_len := length cv_names\<rparr>
        in case init_indices g1 of
             Inl e \<Rightarrow> Inl e
           | Inr g2 \<Rightarrow> fold_loop (nat (n_splits g2)) cv_names g2 [])"

subsection \<open>Auxiliary notions for the proofs about fold_generator\<close>

text \<open>
  Every index held by the generator is below \<open>n\<close>.
\<close>

definition ix_below :: "nat \<Rightarrow> fold_generator \<Rightarrow> bool" where
  "ix_below n g = (list_all (\<lambda>i. i < n) (tr_ix g) \<and> list_all (\<lambda>i. i < n) (val_ix g)
      \<and> list_all (\<lambda>i. i < n) (te_ix g))"

text \<open>
  The lengths of the test subsets that the rotation produces for \<open>L\<close> identifiers and
  \<open>N\<close> splits when \<open>L mod N \<ge> 2\<close>: fold 0 tests the first slice and fold 1 the
  initial validation slice, both of full length; \<open>new_fold\<close> then cuts the next
  \<open>missing = N - L mod N\<close> validation slices one shorter, and they become the test
  subsets of folds \<open>2 .. missing + 1\<close>. \<open>test_off\<close> is the position in the shuffled array
  at which the test subset of fold \<open>k\<close> starts.
\<close>

definition test_len :: "nat \<Rightarrow> nat \<Rightarrow> nat \<Rightarrow> nat" where
  "test_len L N k = (if k < 2 \<or> N - L mod N + 2 \<le> k then L div N + 1 else L div N)"

definition test_off :: "nat \<Rightarrow> nat \<Rightarrow> nat \<Rightarrow> nat" where
  "test_off L N k = sum_list (map (test_len L N) [0..<k])"

text \<open>
  The loop invariant of \<open>get_fold_names\<close> before iteration \<open>k\<close>: test, validation and
  training indices, in this order, are the index range rotated to the start of test
  subset \<open>k\<close>.
\<close>

definition rot_inv :: "nat \<Rightarrow> nat \<Rightarrow> nat \<Rightarrow> fold_generator \<Rightarrow> bool" where
  "rot_inv L N k g \<longleftrightarrow>
     n_splits g = int N \<and> slicer g = int (L div N) + 1 \<and>
     missing g = int N - int (L mod N) \<and> mod_len g = int (L mod N) \<and> fold_no g = int k \<and>
     te_ix g @ val_ix g @ tr_ix g = rotate (test_off L N k) [0..<L] \<and>
     (k < N \<longrightarrow> length (te_ix g) = test_len L N k) \<and>
     (Suc k < N \<longrightarrow> length (val_ix g) = test_len L N (Suc k))"

section \<open>get_class_balanced_patients\<close>

text \<open>
  \<open>np.count_nonzero(class_targets[cand] == c)\<close>: the number of ROIs of a patient that
  have class \<open>c\<close>.
\<close>

definition count_nonzero_eq :: "int list \<Rightarrow> int \<Rightarrow> nat" where
  "count_nonzero_eq targets c = length (filter (\<lambda>t. t = c) targets)"

text \<open>
  \<open>np.argmin\<close>: the first position of the smallest entry, ValueError on an empty
  sequence.
\<close>

definition argmin :: "nat list \<Rightarrow> py_error + nat" where
  "argmin xs =
     (if xs = [] then Inl ValueError
      else Inr (length (takeWhile (\<lambda>x. x \<noteq> Min (set xs)) xs)))"

text \<open>
  \<open>int(x)\<close> on a float truncates towards zero. A float is the rational number it
  stands for: \<open>random_ratio\<close> is the exact value of the double the caller passes (for
  the literal \<open>0.58\<close> the double next to it, a little below 58/100), or the integer
  when the caller passes one, as the default 0. The product \<open>batch_size * random_ratio\<close>
  of the source is a double-precision product: the exact product rounded to the nearest
  double. The rounding is the parameter \<open>fl\<close> of the sampler, so the truncated product
  \<open>int(batch_size * random_ratio)\<close> is \<open>py_int (fl (of_int batch_size * random_ratio))\<close>.
  Nothing is assumed about \<open>fl\<close>; on a product that is a double already, such as an
  integer below \<open>2 ^ 53\<close> or a half, the rounding returns its argument.
\<close>

definition py_int :: "rat \<Rightarrow> int" where
  "py_int x = (if 0 \<le> x then \<lfloor>x\<rfloor> else \<lceil>x\<rceil>)"

text \<open>
  The inner loop \<open>for cand in not_picked\<close>, with the current \<open>pick\<close> as last argument.
  \<open>class_targets\<close> is a dictionary, so a patient without an entry raises KeyError.
  \<open>thr\<close> is \<open>int(batch_size * random_ratio)\<close>.
\<close>

fun scan_not_picked :: "('p \<rightharpoonup> int list) \<Rightarrow> int \<Rightarrow> int \<Rightarrow> int \<Rightarrow> int \<Rightarrow> 'p list \<Rightarrow> 'p
    \<Rightarrow> py_error + 'p" where
  "scan_not_picked class_targets num_classes rarest_class ix thr [] pick = Inr pick"
| "scan_not_picked class_targets num_classes rarest_class ix thr (cand # rest) pick =
     (case class_targets cand of
        None \<Rightarrow> Inl KeyError
      | Some targets \<Rightarrow>
          if count_nonzero_eq targets rarest_class > 0 then
            (case argmin (map (count_nonzero_eq targets) [1..num_classes]) of
               Inl e \<Rightarrow> Inl e
             | Inr a \<Rightarrow>
                 (let cand_rarest_class = int a + 1 in
                  if (cand_rarest_class \<noteq> rarest_class
                        \<and> count_nonzero_eq targets rarest_class > 0) \<or> ix < thr
                  then Inr cand
                  else scan_not_picked class_targets num_classes rarest_class ix thr rest cand))
          else scan_not_picked class_targets num_classes rarest_class ix thr rest pick)"

text \<open>
  The state of the loop over the batch slots: numpy's global random state (of an
  arbitrary type \<open>'g\<close>), \<open>class_counts\<close> as the list of the counts of the classes
  \<open>1 .. num_classes\<close>, \<open>not_picked\<close>, the slots of \<open>batch_patients\<close> filled so far and
  \<open>rarest_class\<close>.
\<close>

record ('p, 'g) sampler_state =
  rng :: 'g
  class_counts :: "nat list"
  not_picked :: "'p list"
  batch_patients :: "'p list"
  rarest_class :: int

text \<open>
  One pass of the body of \<open>for ix in range(batch_size)\<close>. \<open>np.random.shuffle\<close> is the
  parameter \<open>shuffle\<close>: it maps the global random state and the array to the shuffled
  array and the next state. The warning and the print of the source have no effect on
  the result and are left out.
\<close>

definition sample_slot :: "('g \<Rightarrow> 'p list \<Rightarrow> 'p list \<times> 'g) \<Rightarrow> (rat \<Rightarrow> rat) \<Rightarrow> 'p list
    \<Rightarrow> ('p \<rightharpoonup> int list) \<Rightarrow> int \<Rightarrow> int \<Rightarrow> rat \<Rightarrow> int \<Rightarrow> ('p, 'g) sampler_state
    \<Rightarrow> py_error + ('p, 'g) sampler_state" where
  "sample_slot shuffle fl all_pids class_targets batch_size num_classes random_ratio ix s =
     (let s1 = (if not_picked s = [] then s\<lparr>not_picked := all_pids\<rparr> else s);
          (shuffled, g') = shuffle (rng s1) (not_picked s1);
          s2 = s1\<lparr>not_picked := shuffled, rng := g'\<rparr>
      in case not_picked s2 of
           [] \<Rightarrow> Inl IndexError
         | first # _ \<Rightarrow>
             (case scan_not_picked class_targets num_classes (rarest_class s2) ix
                     (py_int (fl (of_int batch_size * random_ratio))) (not_picked s2) first of
                Inl e \<Rightarrow> Inl e
              | Inr pick \<Rightarrow>
                  (case class_targets pick of
                     None \<Rightarrow> Inl KeyError
                   | Some targets \<Rightarrow>
                       (let counts = map (\<lambda>(c, n). n + count_nonzero_eq targets c)
                                       (zip [1..num_classes] (class_counts s2))
                        in case argmin counts of
                             Inl e \<Rightarrow> Inl e
                           | Inr a \<Rightarrow>
                               Inr (s2\<lparr>class_counts := counts,
                                       rarest_class := int a + 1,
                                       batch_patients := batch_patients s2 @ [pick],
                                       not_picked := filter (\<lambda>p. p \<noteq> pick) (not_picked s2)\<rparr>)))))"

fun sample_loop :: "('g \<Rightarrow> 'p list \<Rightarrow> 'p list \<times> 'g) \<Rightarrow> (rat \<Rightarrow> rat) \<Rightarrow> 'p list
    \<Rightarrow> ('p \<rightharpoonup> int list) \<Rightarrow> int \<Rightarrow> int \<Rightarrow> rat \<Rightarrow> nat \<Rightarrow> int \<Rightarrow> ('p, 'g) sampler_state
    \<Rightarrow> py_error + ('p, 'g) sampler_state" where
  "sample_loop shuffle fl all_pids class_targets batch_size num_classes random_ratio 0 ix s =
     Inr s"
| "sample_loop shuffle fl all_pids class_targets batch_size num_classes random_ratio (Suc k) ix s =
     (case sample_slot shuffle fl all_pids class_targets batch_size num_classes random_ratio ix s of
        Inl e \<Rightarrow> Inl e
      | Inr s' \<Rightarrow>
          sample_loop shuffle fl all_pids class_targets batch_size num_classes random_ratio k
            (ix + 1) s')"

text \<open>
  \<open>get_class_balanced_patients\<close>. \<open>np.empty\<close> raises ValueError for a negative batch
  size and \<open>np.random.randint(1, num_classes + 1)\<close> for \<open>num_classes < 1\<close>. The function
  takes no seed and no random source: \<open>randint\<close> and \<open>shuffle\<close> read and advance numpy's
  global random state, which is the argument \<open>g\<close>. The result is the batch and the
  global random state the call leaves behind. The loop counter \<open>ix\<close> starts at 0 and is
  the number of slots filled so far.
\<close>

definition get_class_balanced_patients :: "('g \<Rightarrow> int \<Rightarrow> int \<Rightarrow> int \<times> 'g)
    \<Rightarrow> ('g \<Rightarrow> 'p list \<Rightarrow> 'p list \<times> 'g) \<Rightarrow> (rat \<Rightarrow> rat) \<Rightarrow> 'g
    \<Rightarrow> 'p list \<Rightarrow> ('p \<rightharpoonup> int list) \<Rightarrow> int \<Rightarrow> int \<Rightarrow> rat \<Rightarrow> py_error + ('p list \<times> 'g)" where
  "get_class_balanced_patients randint shuffle fl g all_pids class_targets batch_size num_classes
       random_ratio =
     (if batch_size < 0 then Inl ValueError
      else if num_classes < 1 then Inl ValueError
      else
        let (r, g') = randint g 1 (num_classes + 1);
            s = \<lparr>rng = g', class_counts = replicate (nat num_classes) 0,
                 not_picked = all_pids, batch_patients = [], rarest_class = r\<rparr>
        in case sample_loop shuffle fl all_pids class_targets batch_size num_classes random_ratio
                  (nat batch_size) 0 s of
             Inl e \<Rightarrow> Inl e
           | Inr s' \<Rightarrow> Inr (batch_patients s', rng s'))"

subsection \<open>Auxiliary notions for the proofs about the sampler\<close>

text \<open>
  A patient holds class \<open>c\<close> when its class table has at least one ROI of class \<open>c\<close>.
  The patient's own rarest class is the \<open>cand_rarest_class\<close> of the source.
\<close>

definition holds_class :: "('p \<rightharpoonup> int list) \<Rightarrow> int \<Rightarrow> 'p \<Rightarrow> bool" where
  "holds_class class_targets c p =
     (case class_targets p of None \<Rightarrow> False | Some targets \<Rightarrow> count_nonzero_eq targets c > 0)"

definition own_rarest_class :: "('p \<rightharpoonup> int list) \<Rightarrow> int \<Rightarrow> 'p \<Rightarrow> int" where
  "own_rarest_class class_targets num_classes p =
     (case class_targets p of
        None \<Rightarrow> 0
      | Some targets \<Rightarrow>
          (case argmin (map (count_nonzero_eq targets) [1..num_classes]) of
             Inl e \<Rightarrow> 0
           | Inr a \<Rightarrow> int a + 1))"

text \<open>
  The pick that claim C5 describes, in the claim's words: the first candidate that
  holds the rarest class is accepted; but when its own rarest class is the global
  rarest class and fewer than \<open>random_ratio * batch_size\<close> slots are filled, the scan
  goes on to the first later candidate that holds the rarest class and whose own rarest
  class differs, and falls back to the first candidate found if there is none. Without
  any candidate that holds the rarest class the pick is the first element of the pool.
\<close>

definition claimed_pick :: "('p \<rightharpoonup> int list) \<Rightarrow> int \<Rightarrow> int \<Rightarrow> int \<Rightarrow> int \<Rightarrow> rat \<Rightarrow> 'p list \<Rightarrow> 'p" where
  "claimed_pick class_targets num_classes rarest ix batch_size random_ratio pool =
     (case dropWhile (\<lambda>p. \<not> holds_class class_targets rarest p) pool of
        [] \<Rightarrow> hd pool
      | found # later \<Rightarrow>
          if own_rarest_class class_targets num_classes found = rarest
               \<and> of_int ix < random_ratio * of_int batch_size
          then (case find (\<lambda>p. holds_class class_targets rarest p
                              \<and> own_rarest_class class_targets num_classes p \<noteq> rarest) later of
                  None \<Rightarrow> found
                | Some p \<Rightarrow> p)
          else found)"

text \<open>
  The pool a batch slot scans: \<open>not_picked\<close>, refilled from \<open>all_pids\<close> when it is
  empty, and shuffled with the global random state of the slot. The pick of a slot as
  the amended claim C5 describes it: the first candidate of the pool that holds the
  rarest class and either is scanned early (\<open>ix < int(batch_size * random_ratio)\<close>) or
  has another own rarest class; without such a candidate the last candidate that holds
  the rarest class, and the first element of the pool when there is none.
\<close>

definition slot_pool :: "('g \<Rightarrow> 'p list \<Rightarrow> 'p list \<times> 'g) \<Rightarrow> 'p list \<Rightarrow> ('p, 'g) sampler_state
    \<Rightarrow> 'p list" where
  "slot_pool shuffle all_pids s =
     fst (shuffle (rng s) (if not_picked s = [] then all_pids else not_picked s))"

definition slot_pick :: "('p \<rightharpoonup> int list) \<Rightarrow> int \<Rightarrow> int \<Rightarrow> bool \<Rightarrow> 'p list \<Rightarrow> 'p" where
  "slot_pick class_targets num_classes rarest early pool =
     (case find (\<lambda>p. holds_class class_targets rarest p
                      \<and> (early \<or> own_rarest_class class_targets num_classes p \<noteq> rarest)) pool of
        Some p \<Rightarrow> p
      | None \<Rightarrow>
          (case find (holds_class class_targets rarest) (rev pool) of
             Some p \<Rightarrow> p
           | None \<Rightarrow> hd pool))"

section \<open>get_patch_crop_coords\<close>

text \<open>
  Python floats are rational numbers here: a result is the exact value of the
  expression, which is what double precision computes wherever every intermediate
  value is a dyadic rational of moderate size (integers and halves in the
  evaluations below). Where a quotient is not a double, as \<open>30 / 11\<close>, the source
  rounds it and a centre next to a half can fall to the other side; such inputs are
  not evaluated below. \<open>np.round\<close> rounds to the nearest integer and a half to the
  even neighbour; the final \<open>astype(int)\<close> truncates towards zero (\<open>py_int\<close>).
\<close>

definition np_round :: "rat \<Rightarrow> rat" where
  "np_round x =
     (let f = \<lfloor>x\<rfloor>; d = x - of_int f
      in of_int (if d < 1 / 2 then f else if 1 / 2 < d then f + 1
                 else if even f then f else f + 1))"

text \<open>
  The list comprehensions that place \<open>n_patches\<close> patches along one axis:
  \<open>patch_centers\<close> and \<open>dim_crop_coords\<close>.
\<close>

definition patch_bounds :: "int \<Rightarrow> int \<Rightarrow> rat \<Rightarrow> (rat \<times> rat) list" where
  "patch_bounds patch_d n_patches center_dists =
     map (\<lambda>ii. let center = np_round (of_int patch_d / 2 + center_dists * of_nat ii)
               in (center - of_int patch_d / 2, center + of_int patch_d / 2))
         [0..<nat n_patches]"

text \<open>
  The body of the loop over the axes. Both divisions are Python divisions of
  integers and raise ZeroDivisionError for a zero divisor; \<open>n_patches - 1\<close> is not zero
  at the first one because \<open>n_patches = 1\<close> has left the iteration before.
\<close>

definition dim_crop_coords :: "nat \<Rightarrow> int \<Rightarrow> rat \<Rightarrow> py_error + (rat \<times> rat) list" where
  "dim_crop_coords shape_d patch_d min_overlap =
     (if patch_d = 0 then Inl ZeroDivisionError
      else
        let n_patches = \<lceil>(of_nat shape_d :: rat) / of_int patch_d\<rceil> in
        if n_patches = 1 then Inr [(0, of_nat shape_d)]
        else
          let center_dists = (of_nat shape_d - of_int patch_d) / of_int (n_patches - 1) in
          if of_int patch_d - center_dists < min_overlap then
            (let n_patches' = n_patches + 1 in
             if n_patches' - 1 = 0 then Inl ZeroDivisionError
             else
               let center_dists' = (of_nat shape_d - of_int patch_d) / of_int (n_patches' - 1)
               in Inr (patch_bounds patch_d n_patches' center_dists'))
          else Inr (patch_bounds patch_d n_patches center_dists))"

text \<open>
  The loop \<open>for dim in range(len(img.shape))\<close>; \<open>patch_size[dim]\<close> raises IndexError
  when \<open>patch_size\<close> is shorter than the shape.
\<close>

fun crop_coords_loop :: "nat list \<Rightarrow> int list \<Rightarrow> rat \<Rightarrow> py_error + (rat \<times> rat) list list" where
  "crop_coords_loop [] patch_size min_overlap = Inr []"
| "crop_coords_loop (s # img_shape) [] min_overlap = Inl IndexError"
| "crop_coords_loop (s # img_shape) (p # patch_size) min_overlap =
     (case dim_crop_coords s p min_overlap of
        Inl e \<Rightarrow> Inl e
      | Inr c \<Rightarrow>
          (case crop_coords_loop img_shape patch_size min_overlap of
             Inl e \<Rightarrow> Inl e
           | Inr cs \<Rightarrow> Inr (c # cs)))"

text \<open>
  The nested iteration that builds \<open>coords_mesh_grid\<close>. \<open>crop_coords[0]\<close> raises IndexError
  for an image without axes, and \<open>crop_coords[1]\<close> does for a one-dimensional image
  once the outer loop has an element to run on.
\<close>

definition coords_mesh_grid :: "nat list \<Rightarrow> int list \<Rightarrow> (rat \<times> rat) list list
    \<Rightarrow> py_error + rat list list" where
  "coords_mesh_grid img_shape patch_size crop_coords =
     (case crop_coords of
        [] \<Rightarrow> Inl IndexError
      | c0 # rest \<Rightarrow>
          if c0 = [] then Inr []
          else
            (case rest of
               [] \<Rightarrow> Inl IndexError
             | c1 # rest' \<Rightarrow>
                 Inr (concat (map (\<lambda>(ymin, ymax).
                        concat (map (\<lambda>(xmin, xmax).
                          if length crop_coords = 3 \<and> patch_size ! 2 > 1 then
                            map (\<lambda>(zmin, zmax). [ymin, ymax, xmin, xmax, zmin, zmax])
                              (crop_coords ! 2)
                          else if length crop_coords = 3 \<and> patch_size ! 2 = 1 then
                            map (\<lambda>zmin. [ymin, ymax, xmin, xmax, of_nat zmin, of_nat zmin + 1])
                              [0..<img_shape ! 2]
                          else [[ymin, ymax, xmin, xmax]]) c1)) c0))))"

definition get_patch_crop_coords :: "nat list \<Rightarrow> int list \<Rightarrow> rat \<Rightarrow> py_error + int list list" where
  "get_patch_crop_coords img_shape patch_size min_overlap =
     (case crop_coords_loop img_shape patch_size min_overlap of
        Inl e \<Rightarrow> Inl e
      | Inr crop_coords \<Rightarrow>
          (case coords_mesh_grid img_shape patch_size crop_coords of
             Inl e \<Rightarrow> Inl e
           | Inr grid \<Rightarrow> Inr (map (map py_int) grid)))"

section \<open>Arrays\<close>

text \<open>
  A numpy array is its shape and its entries, read at an index tuple. Only the
  entries at valid indices (one index per axis, each below the length of the axis)
  belong to the array. \<open>indices\<close> lists the valid index tuples in row-major order,
  \<open>np.argwhere\<close>'s order.
\<close>

record 'a ndarray =
  shape :: "nat list"
  elems :: "nat list \<Rightarrow> 'a"

fun indices :: "nat list \<Rightarrow> nat list list" where
  "indices [] = [[]]"
| "indices (n # ns) = concat (map (\<lambda>i. map (\<lambda>idx. i # idx) (indices ns)) [0..<n])"

definition array_eq :: "'a ndarray \<Rightarrow> 'a ndarray \<Rightarrow> bool" where
  "array_eq a b \<longleftrightarrow>
     shape a = shape b \<and> list_all (\<lambda>idx. elems a idx = elems b idx) (indices (shape a))"

text \<open>
  \<open>np.pad(a, pad_list, mode='edge')\<close>, following numpy. A width list without
  entries is a float array (TypeError), a negative width is refused (ValueError), a
  list with one pair is broadcast to all axes, any other length must be the number
  of axes (ValueError), and an axis without entries cannot be extended (ValueError).
  The padded array repeats the border entry: it reads the source at the index moved
  back by the lower width and clipped to the axis.
\<close>

definition np_pad_edge :: "'a ndarray \<Rightarrow> (int \<times> int) list \<Rightarrow> py_error + 'a ndarray" where
  "np_pad_edge a pad_list =
     (if pad_list = [] then Inl TypeError
      else if list_ex (\<lambda>(below, above). below < 0 \<or> above < 0) pad_list then Inl ValueError
      else if length pad_list \<noteq> length (shape a) \<and> length pad_list \<noteq> 1 then Inl ValueError
      else
        let pads = (if length pad_list = length (shape a) then pad_list
                    else replicate (length (shape a)) (hd pad_list)) in
        if list_ex (\<lambda>(n, (below, above)). n = 0 \<and> (below \<noteq> 0 \<or> above \<noteq> 0))
             (zip (shape a) pads)
        then Inl ValueError
        else Inr \<lparr>shape = map (\<lambda>(n, (below, above)). n + nat below + nat above)
                             (zip (shape a) pads),
                  elems = (\<lambda>idx. elems a
                             (map (\<lambda>(i, (n, (below, above))). min (n - 1) (i - nat below))
                                (zip idx (zip (shape a) pads))))\<rparr>)"

text \<open>
  Indexing with one \<open>slice(start, stop)\<close> per leading axis, \<open>a[tuple(slicer)]\<close>:
  Python clips both bounds to the axis, a negative bound counting from the end; more
  slices than axes raise IndexError and axes without a slice are kept whole.
\<close>

definition slice_bound :: "nat \<Rightarrow> int \<Rightarrow> nat" where
  "slice_bound n i = (if i < 0 then nat (max 0 (i + int n)) else min (nat i) n)"

definition index_slices :: "'a ndarray \<Rightarrow> (int \<times> int) list \<Rightarrow> py_error + 'a ndarray" where
  "index_slices a slices =
     (if length (shape a) < length slices then Inl IndexError
      else Inr \<lparr>shape = map (\<lambda>(n, (start, stop)). slice_bound n stop - slice_bound n start)
                           (zip (shape a) slices)
                         @ drop (length slices) (shape a),
                elems = (\<lambda>idx. elems a
                           (map (\<lambda>(i, (n, (start, stop))). slice_bound n start + i)
                              (zip idx (zip (shape a) slices))
                            @ drop (length slices) idx))\<rparr>)"

section \<open>pad_nd_image\<close>

text \<open>
  \<open>shape_must_be_divisible_by\<close> is a number or a sequence with one entry per axis.
\<close>

datatype divisor = Scalar int | PerAxis "int list"

text \<open>
  \<open>%\<close> on numpy integers: the sign of the divisor, and 0 (with a warning) for a
  zero divisor.
\<close>

definition np_mod :: "int \<Rightarrow> int \<Rightarrow> int" where
  "np_mod a b = (if b = 0 then 0 else a mod b)"

text \<open>
  \<open>new_shape - old_shape\<close> on one-dimensional arrays: entry by entry for equal
  lengths, an array of length one is broadcast, other lengths raise ValueError.
\<close>

definition np_sub :: "int list \<Rightarrow> int list \<Rightarrow> py_error + int list" where
  "np_sub xs ys =
     (if length xs = length ys then Inr (map (\<lambda>(x, y). x - y) (zip xs ys))
      else if length xs = 1 then Inr (map (\<lambda>y. hd xs - y) ys)
      else if length ys = 1 then Inr (map (\<lambda>x. x - hd ys) xs)
      else Inl ValueError)"

text \<open>
  The block under \<open>if shape_must_be_divisible_by is not None\<close>.
\<close>

definition round_up_shape :: "int list \<Rightarrow> divisor option \<Rightarrow> py_error + int list" where
  "round_up_shape new_shape shape_must_be_divisible_by =
     (case shape_must_be_divisible_by of
        None \<Rightarrow> Inr new_shape
      | Some d \<Rightarrow>
          (case (case d of Scalar k \<Rightarrow> Inr (replicate (length new_shape) k)
                        | PerAxis ds \<Rightarrow>
                            if length ds = length new_shape then Inr ds
                            else Inl AssertionError) of
             Inl e \<Rightarrow> Inl e
           | Inr ds \<Rightarrow>
               Inr (map (\<lambda>(n, k).
                      let n' = (if np_mod n k = 0 then n - k else n)
                      in n' + k - np_mod n' k) (zip new_shape ds))))"

text \<open>
  \<open>pad_nd_image\<close> with \<open>mode\<close> and \<open>kwargs\<close> at their defaults (edge padding). The
  result is the padded array and, for \<open>return_slicer\<close>, the list of slices.
  \<open>image.shape[-len(new_shape):]\<close> is the whole shape for an empty \<open>new_shape\<close>, and
  \<open>old_shape[i]\<close> raises IndexError when \<open>new_shape\<close> has more entries than the image
  has axes.
\<close>

definition pad_nd_image :: "'a ndarray \<Rightarrow> int list option \<Rightarrow> bool \<Rightarrow> divisor option
    \<Rightarrow> py_error + ('a ndarray \<times> (int \<times> int) list option)" where
  "pad_nd_image img new_shape return_slicer shape_must_be_divisible_by =
     (case (case new_shape of
              Some ns \<Rightarrow> Inr (ns, slice_from (- int (length ns)) (map int (shape img)))
            | None \<Rightarrow>
                (case shape_must_be_divisible_by of
                   None \<Rightarrow> Inl AssertionError
                 | Some (Scalar k) \<Rightarrow> Inl AssertionError
                 | Some (PerAxis ds) \<Rightarrow>
                     (let ns = slice_from (- int (length ds)) (map int (shape img))
                      in Inr (ns, ns)))) of
        Inl e \<Rightarrow> Inl e
      | Inr (new_shape1, old_shape) \<Rightarrow>
          let num_axes_nopad = int (length (shape img)) - int (length new_shape1) in
          if length old_shape < length new_shape1 then Inl IndexError
          else
            let new_shape2 = map (\<lambda>(new, old). max new old) (zip new_shape1 old_shape) in
            (case round_up_shape new_shape2 shape_must_be_divisible_by of
               Inl e \<Rightarrow> Inl e
             | Inr new_shape3 \<Rightarrow>
                 (case np_sub new_shape3 old_shape of
                    Inl e \<Rightarrow> Inl e
                  | Inr difference \<Rightarrow>
                      let pad_below = map (\<lambda>d. d div 2) difference;
                          pad_above = map (\<lambda>d. d div 2 + d mod 2) difference;
                          pad_list = replicate (nat num_axes_nopad) (0, 0)
                                       @ zip pad_below pad_above
                      in (case np_pad_edge img pad_list of
                            Inl e \<Rightarrow> Inl e
                          | Inr res \<Rightarrow>
                              if \<not> return_slicer then Inr (res, None)
                              else
                                Inr (res, Some (map (\<lambda>((below, above), n). (below, int n - above))
                                                 (zip pad_list (shape res))))))))"

subsection \<open>Auxiliary notions for the proofs about pad_nd_image\<close>

text \<open>
  The pair \<open>(pad_below, pad_above)\<close> that \<open>pad_nd_image\<close> computes for an axis of
  length \<open>n\<close> and a requested length \<open>t\<close>.
\<close>

definition pad_pair :: "int \<times> nat \<Rightarrow> int \<times> int" where
  "pad_pair = (\<lambda>(t, n). let d = max t (int n) - int n in (d div 2, d div 2 + d mod 2))"

section \<open>convert_seg_to_bounding_box_coordinates\<close>

text \<open>
  The values held under the ROI-wise keys of \<open>data_dict\<close>: integers and (nested)
  lists. \<open>data_dict[name][b][rix]\<close> indexes twice; indexing an integer raises
  TypeError and an index beyond the list IndexError.
\<close>

datatype pyval = PInt int | PList "pyval list"

definition py_getitem :: "pyval \<Rightarrow> nat \<Rightarrow> py_error + pyval" where
  "py_getitem v i =
     (case v of
        PInt n \<Rightarrow> Inl TypeError
      | PList xs \<Rightarrow> if i < length xs then Inr (xs ! i) else Inl IndexError)"

definition py_setitem :: "pyval \<Rightarrow> nat \<Rightarrow> pyval \<Rightarrow> py_error + pyval" where
  "py_setitem v i x =
     (case v of
        PInt n \<Rightarrow> Inl TypeError
      | PList xs \<Rightarrow> if i < length xs then Inr (PList (xs[i := x])) else Inl IndexError)"

text \<open>
  \<open>data_dict\<close>: the segmentation batch \<open>data_dict['seg']\<close> as the list of its samples
  (each an array with the axes channel, y, x and, in 3D, z), the entries under all
  other keys, and the two entries the function adds. The keys in \<open>roi_item_keys\<close> name
  entries of \<open>items\<close>.
\<close>

record data_dict =
  seg :: "int ndarray list"
  items :: "string \<rightharpoonup> pyval"
  bb_target :: "int list list list option"
  roi_masks :: "int ndarray list list option"

definition lookup_roi_item :: "(string \<rightharpoonup> pyval) \<Rightarrow> string \<Rightarrow> nat \<Rightarrow> nat \<Rightarrow> py_error + pyval" where
  "lookup_roi_item dd name b rix =
     (case dd name of
        None \<Rightarrow> Inl KeyError
      | Some v \<Rightarrow> (case py_getitem v b of Inl e \<Rightarrow> Inl e | Inr vb \<Rightarrow> py_getitem vb rix))"

text \<open>
  \<open>(a == ii) * 1\<close>, \<open>np.argwhere(r != 0)\<close>, \<open>np.sum(a != 0) > 0\<close>, \<open>int(np.max(a))\<close>
  and a column \<open>seg_ixs[:, j]\<close> of the index array, which raises IndexError when the
  array has no axis \<open>j\<close>.
\<close>

definition roi_mask :: "int ndarray \<Rightarrow> int \<Rightarrow> int ndarray" where
  "roi_mask a ii = \<lparr>shape = shape a, elems = (\<lambda>idx. if elems a idx = ii then 1 else 0)\<rparr>"

definition argwhere :: "int ndarray \<Rightarrow> nat list list" where
  "argwhere r = filter (\<lambda>idx. elems r idx \<noteq> 0) (indices (shape r))"

definition any_nonzero :: "int ndarray \<Rightarrow> bool" where
  "any_nonzero a \<longleftrightarrow> argwhere a \<noteq> []"

definition np_max :: "int ndarray \<Rightarrow> int" where
  "np_max a = Max (set (map (elems a) (indices (shape a))))"

definition ix_column :: "int ndarray \<Rightarrow> nat \<Rightarrow> py_error + nat list" where
  "ix_column r j =
     (if j < length (shape r) then Inr (map (\<lambda>idx. idx ! j) (argwhere r)) else Inl IndexError)"

text \<open>
  \<open>coord_list\<close> of a ROI mask with at least one voxel: the smallest index minus one
  and the largest index plus one on the axes 1 and 2, and on axis 3 for \<open>dim == 3\<close> (the parameter \<open>dims\<close>).
\<close>

definition coord_list :: "int \<Rightarrow> int ndarray \<Rightarrow> py_error + int list" where
  "coord_list dims r =
     (case ix_column r 1 of Inl e \<Rightarrow> Inl e | Inr ys \<Rightarrow>
      case ix_column r 2 of Inl e \<Rightarrow> Inl e | Inr xs \<Rightarrow>
        (let coords = [int (Min (set ys)) - 1, int (Min (set xs)) - 1,
                       int (Max (set ys)) + 1, int (Max (set xs)) + 1]
         in if dims = 3 then
              (case ix_column r 3 of Inl e \<Rightarrow> Inl e | Inr zs \<Rightarrow>
                 Inr (coords @ [int (Min (set zs)) - 1, int (Max (set zs)) + 1]))
            else Inr coords))"

text \<open>
  The lists a sample collects: \<open>p_coords_list\<close>, \<open>p_roi_masks_list\<close>, the dictionary
  \<open>p_roi_items_lists\<close> and the sample's part of \<open>out_seg\<close>.
\<close>

record sample_acc =
  p_coords_list :: "int list list"
  p_roi_masks_list :: "int ndarray list"
  p_roi_items_lists :: "string \<Rightarrow> pyval list"
  out_seg_b :: "int ndarray"

text \<open>
  The loop \<open>for name in roi_item_keys\<close> that appends the items of ROI \<open>rix\<close>.
\<close>

fun append_roi_items :: "(string \<rightharpoonup> pyval) \<Rightarrow> nat \<Rightarrow> nat \<Rightarrow> string list
    \<Rightarrow> (string \<Rightarrow> pyval list) \<Rightarrow> py_error + (string \<Rightarrow> pyval list)" where
  "append_roi_items dd b rix [] item_lists = Inr item_lists"
| "append_roi_items dd b rix (name # names) item_lists =
     (case lookup_roi_item dd name b rix of
        Inl e \<Rightarrow> Inl e
      | Inr v \<Rightarrow> append_roi_items dd b rix names (item_lists(name := item_lists name @ [v])))"

text \<open>
  The assertion \<open>data_dict["class_targets"][b][rix] >= 1\<close>; comparing a list with a
  number raises TypeError.
\<close>

definition assert_class_target :: "(string \<rightharpoonup> pyval) \<Rightarrow> nat \<Rightarrow> nat \<Rightarrow> py_error + unit" where
  "assert_class_target dd b rix =
     (case lookup_roi_item dd ''class_targets'' b rix of
        Inl e \<Rightarrow> Inl e
      | Inr (PInt c) \<Rightarrow> if 1 \<le> c then Inr () else Inl AssertionError
      | Inr (PList vs) \<Rightarrow> Inl TypeError)"

text \<open>
  The shape numpy gives a value that it converts to an array: a number has no axis, a
  list of \<open>n\<close> values of one shape has that shape behind an axis of length \<open>n\<close>, and a
  list whose entries differ in shape has none (the conversion to the integer type of
  the segmentation raises ValueError).
\<close>

fun np_shape :: "pyval \<Rightarrow> nat list option" where
  "np_shape (PInt n) = Some []"
| "np_shape (PList vs) =
     (case map np_shape vs of
        [] \<Rightarrow> Some [0]
      | sh # shs \<Rightarrow>
          (case sh of
             None \<Rightarrow> None
           | Some d \<Rightarrow> if list_all (\<lambda>s. s = Some d) shs then Some (length vs # d) else None))"

text \<open>
  The assignment \<open>a[mask] = value\<close> with a boolean mask of the shape of \<open>a\<close>, \<open>sel\<close>
  telling the selected positions. A number is written to every selected position. A
  list is converted to an array first: with more than one axis it is refused
  (TypeError), with one entry that entry is written to every selected position, with
  as many entries as positions are selected the entries are written in row-major
  order, and any other length is refused (ValueError). The elements of an array are
  unbounded integers here: a value outside the range of the integer type of the
  segmentation, which numpy wraps or refuses depending on its version, is written as it
  is.
\<close>

definition masked_assign :: "int ndarray \<Rightarrow> (nat list \<Rightarrow> bool) \<Rightarrow> pyval \<Rightarrow> py_error + int ndarray" where
  "masked_assign a sel v =
     (case v of
        PInt c \<Rightarrow> Inr (a\<lparr>elems := (\<lambda>idx. if sel idx then c else elems a idx)\<rparr>)
      | PList vs \<Rightarrow>
          (case np_shape v of
             None \<Rightarrow> Inl ValueError
           | Some sh \<Rightarrow>
               if length sh > 1 then Inl TypeError
               else
                 (let hits = filter sel (indices (shape a));
                      cs = map (\<lambda>x. case x of PInt c \<Rightarrow> c | PList ys \<Rightarrow> 0) vs
                  in if length cs = 1 then
                       Inr (a\<lparr>elems := (\<lambda>idx. if sel idx then hd cs else elems a idx)\<rparr>)
                     else if length cs = length hits then
                       Inr (a\<lparr>elems :=
                              (\<lambda>idx. if idx \<in> set hits
                                     then cs ! length (takeWhile (\<lambda>j. j \<noteq> idx) hits)
                                     else elems a idx)\<rparr>)
                     else Inl ValueError)))"

text \<open>
  The body of \<open>for rix, r in enumerate(rois)\<close>. The masks are taken from the
  segmentation itself, \<open>data_dict['seg'][b] == rix + 1\<close>, in both modes. The
  class-specific rewrite \<open>out_seg[b][data_dict['seg'][b] == rix + 1] = value\<close> runs for
  every \<open>rix\<close>, also when the mask is empty.
\<close>

definition roi_step :: "(string \<rightharpoonup> pyval) \<Rightarrow> int \<Rightarrow> string list \<Rightarrow> bool \<Rightarrow> int ndarray \<Rightarrow> nat
    \<Rightarrow> nat \<Rightarrow> sample_acc \<Rightarrow> py_error + sample_acc" where
  "roi_step dd dims roi_item_keys class_specific_seg seg_b b rix acc =
     (let r = roi_mask seg_b (int rix + 1) in
      case (if any_nonzero r then
              (case coord_list dims r of
                 Inl e \<Rightarrow> Inl e
               | Inr coords \<Rightarrow>
                   (case append_roi_items dd b rix roi_item_keys (p_roi_items_lists acc) of
                      Inl e \<Rightarrow> Inl e
                    | Inr item_lists \<Rightarrow>
                        (case assert_class_target dd b rix of
                           Inl e \<Rightarrow> Inl e
                         | Inr u \<Rightarrow>
                             Inr (acc\<lparr>p_coords_list := p_coords_list acc @ [coords],
                                     p_roi_masks_list := p_roi_masks_list acc @ [r],
                                     p_roi_items_lists := item_lists\<rparr>))))
            else Inr acc) of
        Inl e \<Rightarrow> Inl e
      | Inr acc1 \<Rightarrow>
          if class_specific_seg then
            (case lookup_roi_item dd ''class_targets'' b rix of
               Inl e \<Rightarrow> Inl e
             | Inr v \<Rightarrow>
                 (case masked_assign (out_seg_b acc1) (\<lambda>idx. elems seg_b idx = int rix + 1) v of
                    Inl e \<Rightarrow> Inl e
                  | Inr out_b \<Rightarrow> Inr (acc1\<lparr>out_seg_b := out_b\<rparr>)))
          else Inr acc1)"

fun roi_loop :: "(string \<rightharpoonup> pyval) \<Rightarrow> int \<Rightarrow> string list \<Rightarrow> bool \<Rightarrow> int ndarray \<Rightarrow> nat
    \<Rightarrow> nat list \<Rightarrow> sample_acc \<Rightarrow> py_error + sample_acc" where
  "roi_loop dd dims roi_item_keys class_specific_seg seg_b b [] acc = Inr acc"
| "roi_loop dd dims roi_item_keys class_specific_seg seg_b b (rix # rixs) acc =
     (case roi_step dd dims roi_item_keys class_specific_seg seg_b b rix acc of
        Inl e \<Rightarrow> Inl e
      | Inr acc' \<Rightarrow> roi_loop dd dims roi_item_keys class_specific_seg seg_b b rixs acc')"

text \<open>
  The iteration \<open>for name in roi_item_keys: roi_items[name].append(...)\<close> that closes a
  sample; \<open>new\<close> gives the array appended under a key.
\<close>

fun append_sample_items :: "string list \<Rightarrow> (string \<Rightarrow> pyval) \<Rightarrow> (string \<Rightarrow> pyval list)
    \<Rightarrow> (string \<Rightarrow> pyval list)" where
  "append_sample_items [] new item_lists = item_lists"
| "append_sample_items (name # names) new item_lists =
     append_sample_items names new (item_lists(name := item_lists name @ [new name]))"

text \<open>
  What the loop over the batch carries: the dictionary entries (in the mode
  \<open>get_rois_from_seg\<close> the class targets of a sample are replaced in place), the
  lists \<open>bb_target\<close> and \<open>roi_masks\<close>, the dictionary \<open>roi_items\<close> and \<open>out_seg\<close>.
\<close>

record batch_acc =
  dd_items :: "string \<rightharpoonup> pyval"
  bb_list :: "int list list list"
  masks_list :: "int ndarray list list"
  roi_items :: "string \<Rightarrow> pyval list"
  out_seg :: "int ndarray list"

text \<open>
  The body of \<open>for b in range(data_dict['seg'].shape[0])\<close>. \<open>lb\<close> is
  \<open>scipy.ndimage.label\<close>: it maps an array to the array of component labels and the
  number of components. The component labels are computed and not used.
\<close>

definition sample_step :: "(int ndarray \<Rightarrow> int ndarray \<times> nat) \<Rightarrow> int \<Rightarrow> string list \<Rightarrow> bool \<Rightarrow> bool
    \<Rightarrow> int ndarray \<Rightarrow> nat \<Rightarrow> batch_acc \<Rightarrow> py_error + batch_acc" where
  "sample_step lb dims roi_item_keys get_rois_from_seg class_specific_seg seg_b b st =
     (if any_nonzero seg_b then
        (case (if get_rois_from_seg then
                 (let (clusters, n_cands) = lb seg_b in
                  case dd_items st ''class_targets'' of
                    None \<Rightarrow> Inl KeyError
                  | Some v \<Rightarrow>
                      (case py_getitem v b of
                         Inl e \<Rightarrow> Inl e
                       | Inr vb \<Rightarrow>
                           (case py_setitem v b (PList (replicate n_cands vb)) of
                              Inl e \<Rightarrow> Inl e
                            | Inr v' \<Rightarrow> Inr ((dd_items st)(''class_targets'' \<mapsto> v'), n_cands))))
               else Inr (dd_items st, nat (np_max seg_b))) of
           Inl e \<Rightarrow> Inl e
         | Inr (dd, n_cands) \<Rightarrow>
             (case roi_loop dd dims roi_item_keys class_specific_seg seg_b b [0..<n_cands]
                     \<lparr>p_coords_list = [], p_roi_masks_list = [],
                      p_roi_items_lists = (\<lambda>name. []), out_seg_b = seg_b\<rparr> of
                Inl e \<Rightarrow> Inl e
              | Inr acc \<Rightarrow>
                  (let out_b = (if \<not> class_specific_seg
                                then (out_seg_b acc)\<lparr>elems := (\<lambda>idx. if elems seg_b idx > 0 then 1
                                                                   else elems (out_seg_b acc) idx)\<rparr>
                                else out_seg_b acc)
                   in Inr (st\<lparr>dd_items := dd,
                              bb_list := bb_list st @ [p_coords_list acc],
                              masks_list := masks_list st @ [p_roi_masks_list acc],
                              roi_items := append_sample_items roi_item_keys
                                             (\<lambda>name. PList (p_roi_items_lists acc name))
                                             (roi_items st),
                              out_seg := out_seg st @ [out_b]\<rparr>))))
      else
        Inr (st\<lparr>bb_list := bb_list st @ [[]],
                masks_list := masks_list st
                              @ [[\<lparr>shape = shape seg_b, elems = (\<lambda>idx. 0)\<rparr>]],
                roi_items := append_sample_items roi_item_keys (\<lambda>name. PList [])
                               (roi_items st),
                out_seg := out_seg st @ [seg_b]\<rparr>))"

fun batch_loop :: "(int ndarray \<Rightarrow> int ndarray \<times> nat) \<Rightarrow> int \<Rightarrow> string list \<Rightarrow> bool \<Rightarrow> bool
    \<Rightarrow> int ndarray list \<Rightarrow> nat \<Rightarrow> batch_acc \<Rightarrow> py_error + batch_acc" where
  "batch_loop lb dims roi_item_keys get_rois_from_seg class_specific_seg [] b st = Inr st"
| "batch_loop lb dims roi_item_keys get_rois_from_seg class_specific_seg (seg_b # segs) b st =
     (case sample_step lb dims roi_item_keys get_rois_from_seg class_specific_seg seg_b b st of
        Inl e \<Rightarrow> Inl e
      | Inr st' \<Rightarrow>
          batch_loop lb dims roi_item_keys get_rois_from_seg class_specific_seg segs (Suc b) st')"

text \<open>
  The loop \<open>for name in roi_item_keys: data_dict[name] = np.array(roi_items[name])\<close>.
\<close>

fun store_roi_items :: "string list \<Rightarrow> (string \<Rightarrow> pyval list) \<Rightarrow> (string \<rightharpoonup> pyval)
    \<Rightarrow> (string \<rightharpoonup> pyval)" where
  "store_roi_items [] item_lists dd = dd"
| "store_roi_items (name # names) item_lists dd =
     store_roi_items names item_lists (dd(name \<mapsto> PList (item_lists name)))"

text \<open>
  \<open>convert_seg_to_bounding_box_coordinates\<close>. The closing \<open>np.array(...)\<close> of the lists
  \<open>bb_target\<close>, \<open>roi_masks\<close> and \<open>roi_items[name]\<close> keeps their entries: when the
  samples differ in their number of ROIs numpy builds an array of objects (the numpy
  releases from 1.24 on refuse such a ragged list with ValueError; the lists are kept
  here as they are, as the releases do that the repository was written for).
\<close>

definition convert_seg_to_bounding_box_coordinates :: "(int ndarray \<Rightarrow> int ndarray \<times> nat)
    \<Rightarrow> data_dict \<Rightarrow> int \<Rightarrow> string list \<Rightarrow> bool \<Rightarrow> bool \<Rightarrow> py_error + data_dict" where
  "convert_seg_to_bounding_box_coordinates lb data_dict dims roi_item_keys get_rois_from_seg
       class_specific_seg =
     (case batch_loop lb dims roi_item_keys get_rois_from_seg class_specific_seg (seg data_dict) 0
             \<lparr>dd_items = items data_dict, bb_list = [], masks_list = [],
              roi_items = (\<lambda>name. []), out_seg = []\<rparr> of
        Inl e \<Rightarrow> Inl e
      | Inr st \<Rightarrow>
          (let dd1 = (if get_rois_from_seg then (dd_items st)(''class_targets'' := None)
                      else dd_items st)
           in Inr (data_dict\<lparr>bb_target := Some (bb_list st),
                             roi_masks := Some (masks_list st),
                             seg := out_seg st,
                             items := store_roi_items roi_item_keys (roi_items st) dd1\<rparr>)))"

subsection \<open>Auxiliary notions for the proofs about the bounding boxes\<close>

text \<open>
  The number of instance ids a sample is searched for, the class-attribute value
  that belongs to instance \<open>rix\<close> of sample \<open>b\<close> (in the mode \<open>get_rois_from_seg\<close> the
  sample's single value, else the entry of the sample's list), and a class-attribute
  value that is a number not below 1.
\<close>

definition n_cands_of :: "(int ndarray \<Rightarrow> int ndarray \<times> nat) \<Rightarrow> bool \<Rightarrow> int ndarray \<Rightarrow> nat" where
  "n_cands_of lb get_rois_from_seg seg_b =
     (if get_rois_from_seg then snd (lb seg_b) else nat (np_max seg_b))"

definition class_target_of :: "(string \<rightharpoonup> pyval) \<Rightarrow> bool \<Rightarrow> nat \<Rightarrow> nat \<Rightarrow> py_error + pyval" where
  "class_target_of dd get_rois_from_seg b rix =
     (if get_rois_from_seg then
        (case dd ''class_targets'' of
           None \<Rightarrow> Inl KeyError
         | Some v \<Rightarrow> py_getitem v b)
      else lookup_roi_item dd ''class_targets'' b rix)"

definition class_ok :: "pyval \<Rightarrow> bool" where
  "class_ok v = (case v of PInt c \<Rightarrow> 1 \<le> c | PList vs \<Rightarrow> False)"

definition sample_classes_ok :: "pyval \<Rightarrow> bool" where
  "sample_classes_ok v = (case v of PInt c \<Rightarrow> False | PList rois \<Rightarrow> list_all class_ok rois)"

text \<open>
  Instance \<open>rix\<close> of a sample has survived when its mask has a voxel, and \<open>boxes\<close>
  are the boxes of a sample when they are the \<open>coord_list\<close> of its surviving
  instances, in the order of the instance ids.
\<close>

definition survived :: "int ndarray \<Rightarrow> nat \<Rightarrow> bool" where
  "survived seg_b rix = any_nonzero (roi_mask seg_b (int rix + 1))"

definition sample_boxes :: "(int ndarray \<Rightarrow> int ndarray \<times> nat) \<Rightarrow> int \<Rightarrow> bool \<Rightarrow> int ndarray
    \<Rightarrow> int list list \<Rightarrow> bool" where
  "sample_boxes lb dims get_rois_from_seg seg_b boxes \<longleftrightarrow>
     (if any_nonzero seg_b then
        list_all2 (\<lambda>rix box. coord_list dims (roi_mask seg_b (int rix + 1)) = Inr box)
          (filter (survived seg_b) [0..<n_cands_of lb get_rois_from_seg seg_b]) boxes
      else boxes = [])"

text \<open>
  Inputs for the evaluations: a sample with one channel, one row and three columns
  that holds the values \<open>v0, v1, v2\<close>; a batch of one such sample with the class
  targets \<open>ct\<close>; and a labelling that returns the given labels and count for every
  array, to stand for \<open>scipy.ndimage.label\<close> on the one sample of a batch.
\<close>

definition row_sample :: "int \<Rightarrow> int \<Rightarrow> int \<Rightarrow> int ndarray" where
  "row_sample v0 v1 v2 =
     \<lparr>shape = [1, 1, 3], elems = (\<lambda>idx. if idx ! 2 = 0 then v0 else if idx ! 2 = 1 then v1 else v2)\<rparr>"

definition row_batch :: "int \<Rightarrow> int \<Rightarrow> int \<Rightarrow> pyval \<Rightarrow> data_dict" where
  "row_batch v0 v1 v2 ct =
     \<lparr>seg = [row_sample v0 v1 v2], items = [''class_targets'' \<mapsto> ct],
      bb_target = None, roi_masks = None\<rparr>"

definition fixed_label :: "int ndarray \<Rightarrow> nat \<Rightarrow> int ndarray \<Rightarrow> int ndarray \<times> nat" where
  "fixed_label clusters n a = (clusters, n)"

text \<open>
  A three-dimensional sample with one channel, given as the nested list of its values
  \<open>v[y][x][z]\<close>, and a batch of one such sample with the class targets \<open>ct\<close>.
\<close>

definition volume_sample :: "int list list list \<Rightarrow> int ndarray" where
  "volume_sample v =
     \<lparr>shape = [1, length v, length (hd v), length (hd (hd v))],
      elems = (\<lambda>idx. v ! (idx ! 1) ! (idx ! 2) ! (idx ! 3))\<rparr>"

definition volume_batch :: "int list list list \<Rightarrow> pyval \<Rightarrow> data_dict" where
  "volume_batch v ct =
     \<lparr>seg = [volume_sample v], items = [''class_targets'' \<mapsto> ct],
      bb_target = None, roi_masks = None\<rparr>"

section \<open>Properties of fold_generator\<close>

subsection \<open>Slices and the loop\<close>

lemma slice_to_from_append: "slice_to k xs @ slice_from k xs = xs"
  by (simp add: slice_to_def slice_from_def)

lemma set_slice_to: "set (slice_to k xs) \<subseteq> set xs"
  by (auto simp: slice_to_def dest: in_set_takeD)

lemma set_slice_from: "set (slice_from k xs) \<subseteq> set xs"
  by (auto simp: slice_from_def dest: in_set_dropD)

lemma list_all_slice_to: "list_all P xs \<Longrightarrow> list_all P (slice_to k xs)"
  using set_slice_to [of k xs] by (auto simp: list_all_iff)

lemma list_all_slice_from: "list_all P xs \<Longrightarrow> list_all P (slice_from k xs)"
  using set_slice_from [of k xs] by (auto simp: list_all_iff)

lemma init_indices_zero: "n_splits g = 0 \<Longrightarrow> init_indices g = Inl ZeroDivisionError"
  by (simp add: init_indices_def)

lemma init_indices_ok:
  assumes "n_splits g \<noteq> 0"
  shows "\<exists>g'. init_indices g = Inr g' \<and> ix_below (l_len g) g' \<and> n_splits g' = n_splits g"
proof -
  have "list_all (\<lambda>i. i < l_len g) [0..<l_len g]"
    by (simp add: list_all_iff)
  then show ?thesis
    using assms
    by (simp add: init_indices_def Let_def ix_below_def list_all_slice_to list_all_slice_from)
qed

lemma new_fold_ix_below: "ix_below n g \<Longrightarrow> ix_below n (new_fold g)"
  by (simp add: new_fold_def Let_def ix_below_def list_all_slice_to list_all_slice_from)

lemma fancy_index_ok: "list_all (\<lambda>i. i < length arr) ixs \<Longrightarrow> fancy_index arr ixs = Inr (map (\<lambda>i. arr ! i) ixs)"
  by (simp add: fancy_index_def)

lemma fold_loop_total:
  "ix_below (length cv) g \<Longrightarrow>
     \<exists>names g'. fold_loop k cv g acc = Inr (names, g') \<and> length names = length acc + k"
proof (induction k arbitrary: g acc)
  case 0
  then show ?case by simp
next
  case (Suc k)
  let ?g2 = "(new_fold g)\<lparr>fold_no := fold_no (new_fold g) + 1\<rparr>"
  have "ix_below (length cv) ?g2"
    using new_fold_ix_below [OF Suc.prems] by (simp add: ix_below_def)
  from Suc.IH [OF this, of "acc @ [(map (\<lambda>i. cv ! i) (tr_ix g), map (\<lambda>i. cv ! i) (val_ix g),
      map (\<lambda>i. cv ! i) (te_ix g), fold_no g)]"]
  show ?case
    using Suc.prems by (simp add: ix_below_def fancy_index_ok Let_def)
qed


subsection \<open>The rotation schedule\<close>

lemma slice_to_nat: "slice_to (int c) xs = take c xs"
  by (simp add: slice_to_def)

lemma slice_from_nat: "slice_from (int c) xs = drop c xs"
  by (simp add: slice_from_def)

lemma test_off_0: "test_off L N 0 = 0"
  by (simp add: test_off_def)

lemma test_off_Suc: "test_off L N (Suc k) = test_off L N k + test_len L N k"
  by (simp add: test_off_def)

lemma test_off_mono: "k \<le> k' \<Longrightarrow> test_off L N k \<le> test_off L N k'"
  by (induction k' ) (auto simp: test_off_Suc le_Suc_eq)



lemma take_take_drop: "take a xs @ take b (drop a xs) @ drop (a + b) xs = xs"
  by (metis append_take_drop_id drop_drop add.commute)

lemma test_off_closed:
  assumes "0 < N" and "2 \<le> L mod N"
  shows "k \<le> N \<Longrightarrow> test_off L N k =
     k * (L div N) + (if k \<le> 2 then k else if k \<le> N - L mod N + 2 then 2 else k - (N - L mod N))"
proof (induction k)
  case 0
  then show ?case by (simp add: test_off_0)
next
  case (Suc k)
  define q where "q = L div N"
  define r where "r = L mod N"
  have rN: "r < N" "2 \<le> r" using assms by (simp_all add: r_def)
  from Suc have IH: "test_off L N k =
     k * q + (if k \<le> 2 then k else if k \<le> N - r + 2 then 2 else k - (N - r))"
    by (simp add: q_def r_def)
  have tl: "test_len L N k = (if k < 2 \<or> N - r + 2 \<le> k then q + 1 else q)"
    by (simp add: test_len_def q_def r_def)
  have "test_off L N (Suc k) =
     Suc k * q + (if Suc k \<le> 2 then Suc k else if Suc k \<le> N - r + 2 then 2 else Suc k - (N - r))"
    unfolding test_off_Suc IH tl using rN Suc.prems by (auto simp: algebra_simps)
  then show ?case by (simp add: q_def r_def)
qed

lemma test_off_total:
  assumes "0 < N" and "2 \<le> L mod N"
  shows "test_off L N N = L"
proof -
  define q where "q = L div N"
  define r where "r = L mod N"
  have rN: "r < N" "2 \<le> r" using assms by (simp_all add: r_def)
  have L: "L = N * q + r" by (simp add: q_def r_def)
  have "test_off L N N = N * q + (if N \<le> 2 then N else if N \<le> N - r + 2 then 2 else N - (N - r))"
    using test_off_closed [OF assms, of N] by (simp add: q_def r_def)
  also have "\<dots> = N * q + r"
    using rN by auto
  finally show ?thesis using L by simp
qed

lemma test_off_len_le:
  assumes "0 < N" and "2 \<le> L mod N" and "k < N"
  shows "test_off L N k + test_len L N k \<le> L"
  using test_off_mono [of "Suc k" N L N] assms test_off_total [OF assms(1,2)]
  by (simp add: test_off_Suc)

lemma three_tests_le:
  assumes "0 < N" and "2 \<le> L mod N" and "Suc (Suc k) < N"
  shows "test_len L N k + test_len L N (Suc k) + test_len L N (Suc (Suc k)) \<le> L"
  using test_off_mono [of "Suc (Suc (Suc k))" N L N] assms test_off_total [OF assms(1,2)]
  by (simp add: test_off_Suc)

lemma two_tests_le:
  assumes "0 < N" and "2 \<le> L mod N" and "Suc k < N"
  shows "test_len L N k + test_len L N (Suc k) \<le> L"
  using test_off_mono [of "Suc (Suc k)" N L N] assms test_off_total [OF assms(1,2)]
  by (simp add: test_off_Suc)

lemma ceil_div_nat:
  assumes "0 < N" and "L mod N \<noteq> 0"
  shows "- ((- int L) div int N) = int (L div N) + 1"
proof -
  have "int L mod int N \<noteq> 0"
    using assms by (metis of_nat_mod of_nat_eq_0_iff)
  then show ?thesis
    using assms(1) by (simp add: zdiv_zminus1_eq_if zdiv_int)
qed

lemma init_indices_rot_inv:
  assumes N: "0 < N" and r: "2 \<le> L mod N"
    and g: "n_splits g = int N" "l_len g = L" "fold_no g = 0" 
  shows "\<exists>g'. init_indices g = Inr g' \<and> rot_inv L N 0 g'"
proof -
  have N3: "2 < N" using r N by (meson mod_less_divisor le_less_trans)
  define S where "S = L div N + 1"
  have s: "- ((- int L) div int N) = int S"
    using ceil_div_nat [OF N] r by (simp add: S_def)
  have m: "int L mod int N = int (L mod N)" by (simp add: of_nat_mod)
  have t0: "test_len L N 0 = S" "test_len L N (Suc 0) = S"
    by (simp_all add: test_len_def S_def)
  have l2: "S + S \<le> L"
    using two_tests_le [OF N r, of 0] N3 by (simp add: t0)
  define t where "t = [0..<L]"
  have lt: "length t = L" by (simp add: t_def)
  define g' where "g' = g\<lparr>slicer := int S, mod_len := int (L mod N),
     missing := int N - int (L mod N), te_ix := take S t, 
     tr_ix := drop S (drop S t), val_ix := take S (drop S t)\<rparr>"
  have "init_indices g = Inr g'"
    using g N r
    by (simp add: init_indices_def Let_def s m slice_to_nat slice_from_nat g'_def t_def)
  moreover have "rot_inv L N 0 g'"
    using g l2 lt N
    by (simp add: rot_inv_def g'_def test_off_0 t0 t_def [symmetric] take_take_drop)
      (simp add: S_def)
  ultimately show ?thesis by blast
qed

lemma take_rotate:
  assumes "off + a \<le> length xs"
  shows "take a (rotate off xs) = take a (drop off xs)"
proof (cases "off < length xs")
  case True
  then have "rotate off xs = drop off xs @ take off xs"
    by (simp add: rotate_drop_take)
  then show ?thesis using assms by simp
next
  case False
  then show ?thesis using assms by simp
qed

lemma new_fold_rot_inv:
  assumes N: "0 < N" and r: "2 \<le> L mod N" and inv: "rot_inv L N k g" and k: "k < N"
  shows "rot_inv L N (Suc k) ((new_fold g)\<lparr>fold_no := fold_no (new_fold g) + 1\<rparr>)"
proof -
  define c where "c = test_len L N (Suc (Suc k))"
  define u where "u = rotate (test_off L N k) [0..<L]"
  have rN: "L mod N < N" using N by simp
  from inv k have f: "n_splits g = int N" "slicer g = int (L div N) + 1"
      "missing g = int N - int (L mod N)" "mod_len g = int (L mod N)" "fold_no g = int k"
      "te_ix g @ val_ix g @ tr_ix g = u" "length (te_ix g) = test_len L N k"
      "Suc k < N \<longrightarrow> length (val_ix g) = test_len L N (Suc k)"
    by (simp_all add: rot_inv_def u_def)
  have noshift: "mod_len g \<noteq> 1" using f(4) r by simp
  have sl: "(if fold_no g < missing g then slicer g - 1 else slicer g) = int c"
    using rN by (auto simp: f c_def test_len_def)
  have nf: "new_fold g = g\<lparr>te_ix := val_ix g, val_ix := take c (tr_ix g),
       tr_ix := drop c (tr_ix g) @ te_ix g\<rparr>"
    using noshift by (simp add: new_fold_def Let_def sl slice_to_nat slice_from_nat)
  have "val_ix g @ take c (tr_ix g) @ drop c (tr_ix g) @ te_ix g
      = rotate (length (te_ix g)) (te_ix g @ (val_ix g @ tr_ix g))"
    by (simp add: rotate_append)
  also have "\<dots> = rotate (test_off L N (Suc k)) [0..<L]"
    by (simp add: f(6,7) u_def rotate_rotate test_off_Suc add.commute)
  finally have rot: "val_ix g @ take c (tr_ix g) @ drop c (tr_ix g) @ te_ix g
      = rotate (test_off L N (Suc k)) [0..<L]" .
  have lenu: "length (te_ix g) + length (val_ix g) + length (tr_ix g) = L"
    using arg_cong [OF f(6), of length] by (simp add: u_def)
  have lenval: "Suc (Suc k) < N \<longrightarrow> length (take c (tr_ix g)) = c"
  proof
    assume kk: "Suc (Suc k) < N"
    then have "length (val_ix g) = test_len L N (Suc k)" using f(8) by simp
    with three_tests_le [OF N r kk] lenu f(7) show "length (take c (tr_ix g)) = c"
      by (simp add: c_def)
  qed
  show ?thesis
    unfolding rot_inv_def nf using f(1-5,8) rot lenval
    by (simp add: c_def)
qed

lemma fold_loop_rot:
  assumes N: "0 < N" and r: "2 \<le> L mod N" and cv: "length cv = L"
  shows "rot_inv L N k g \<Longrightarrow> k + j = N \<Longrightarrow>
    \<exists>names' g'. fold_loop j cv g acc = Inr (acc @ names', g') \<and> length names' = j \<and>
      slicer g' = slicer g \<and>
      (\<forall>i<j. test_names (names' ! i) =
          map (\<lambda>x. cv ! x) (take (test_len L N (k + i)) (drop (test_off L N (k + i)) [0..<L])))"
proof (induction j arbitrary: k g acc)
  case 0
  then show ?case by simp
next
  case (Suc j)
  have k: "k < N" using Suc.prems by simp
  define u where "u = rotate (test_off L N k) [0..<L]"
  from Suc.prems k have f: "te_ix g @ val_ix g @ tr_ix g = u" "length (te_ix g) = test_len L N k"
    by (simp_all add: rot_inv_def u_def)
  have "set (te_ix g @ val_ix g @ tr_ix g) = {0..<L}"
    unfolding f(1) u_def by simp
  then have bnd: "list_all (\<lambda>i. i < length cv) (te_ix g)"
      "list_all (\<lambda>i. i < length cv) (val_ix g)" "list_all (\<lambda>i. i < length cv) (tr_ix g)"
    using cv by (auto simp: list_all_iff)
  have "te_ix g = take (test_len L N k) u"
    using f by (metis append_eq_conv_conj)
  also have "\<dots> = take (test_len L N k) (drop (test_off L N k) [0..<L])"
    unfolding u_def using test_off_len_le [OF N r k] by (simp add: take_rotate)
  finally have te: "te_ix g = take (test_len L N k) (drop (test_off L N k) [0..<L])" .
  let ?g2 = "(new_fold g)\<lparr>fold_no := fold_no (new_fold g) + 1\<rparr>"
  let ?e = "(map (\<lambda>i. cv ! i) (tr_ix g), map (\<lambda>i. cv ! i) (val_ix g),
      map (\<lambda>i. cv ! i) (te_ix g), fold_no g)"
  have inv': "rot_inv L N (Suc k) ?g2"
    using new_fold_rot_inv [OF N r Suc.prems(1) k] .
  have sl: "slicer ?g2 = slicer g"
    by (simp add: new_fold_def Let_def)
  from Suc.IH [OF inv', of "acc @ [?e]"] Suc.prems(2)
  obtain names'' g' where res: "fold_loop j cv ?g2 (acc @ [?e]) = Inr ((acc @ [?e]) @ names'', g')"
      "length names'' = j" "slicer g' = slicer ?g2"
      "\<forall>i<j. test_names (names'' ! i) =
          map (\<lambda>x. cv ! x) (take (test_len L N (Suc k + i)) (drop (test_off L N (Suc k + i)) [0..<L]))"
    by auto
  have step: "fold_loop (Suc j) cv g acc = Inr (acc @ (?e # names''), g')"
    using res(1) bnd by (simp add: fancy_index_def Let_def)
  have all: "\<forall>i<Suc j. test_names ((?e # names'') ! i) =
          map (\<lambda>x. cv ! x) (take (test_len L N (k + i)) (drop (test_off L N (k + i)) [0..<L]))"
  proof (intro allI impI)
    fix i assume "i < Suc j"
    then show "test_names ((?e # names'') ! i) =
          map (\<lambda>x. cv ! x) (take (test_len L N (k + i)) (drop (test_off L N (k + i)) [0..<L]))"
      using res(4) te by (cases i) (simp_all add: test_names_def)
  qed
  show ?case
    using step res(2,3) sl all by (intro exI [of _ "?e # names''"] exI [of _ g']) simp
qed

lemma concat_map_map: "concat (map (\<lambda>i. map f (h i)) xs) = map f (concat (map h xs))"
  by (induction xs) simp_all

lemma concat_test_slices:
  "concat (map (\<lambda>i. take (test_len L N i) (drop (test_off L N i) xs)) [0..<n])
     = take (test_off L N n) xs"
  by (induction n) (simp_all add: test_off_0 test_off_Suc take_add)

subsection \<open>Which configurations are rejected\<close>

text \<open>
  Claim C9, as amended. \<open>fold_generator\<close> validates none of its arguments. With a seed
  that \<open>RandomState\<close> accepts, \<open>get_fold_names\<close> fails exactly for \<open>n_splits = 0\<close>, with
  the ZeroDivisionError of \<open>init_indices\<close>, before any fold is produced. Every other
  split count, negative ones and counts above the number of identifiers included,
  returns a fold sequence of \<open>max(n_splits, 0)\<close> entries without any error.
\<close>

theorem get_fold_names_rejects_only_zero_splits:
  assumes "0 \<le> myseed g" and "myseed g < 2 ^ 32"
  shows "(n_splits g = 0 \<longrightarrow> get_fold_names shuffle g = Inl ZeroDivisionError) \<and>
         (n_splits g \<noteq> 0 \<longrightarrow>
            (\<exists>names g'. get_fold_names shuffle g = Inr (names, g') \<and>
               length names = nat (n_splits g)))"
proof (intro conjI impI)
  assume "n_splits g = 0"
  then show "get_fold_names shuffle g = Inl ZeroDivisionError"
    using assms by (simp add: get_fold_names_def Let_def init_indices_zero)
next
  assume nz: "n_splits g \<noteq> 0"
  let ?cv = "shuffle (myseed g) [0..<nat (len_data g)]"
  let ?g1 = "g\<lparr>l_len := length ?cv\<rparr>"
  from nz obtain g2 where g2: "init_indices ?g1 = Inr g2" "ix_below (length ?cv) g2"
      "n_splits g2 = n_splits g"
    using init_indices_ok [of ?g1] by auto
  from fold_loop_total [OF g2(2), of "nat (n_splits g)" "[]"] g2 assms
  show "\<exists>names g'. get_fold_names shuffle g = Inr (names, g') \<and> length names = nat (n_splits g)"
    by (simp add: get_fold_names_def Let_def)
qed

theorem get_fold_names_rejects_only_zero_splits_witness:
  "(0::int) \<le> myseed (fold_generator_init 0 3 2) \<and> myseed (fold_generator_init 0 3 2) < 2 ^ 32 \<and>
   n_splits (fold_generator_init 0 3 2) \<noteq> 0 \<and>
   (\<exists>names g'. get_fold_names (\<lambda>seed xs. xs) (fold_generator_init 0 3 2) = Inr (names, g') \<and>
      length names = 3)"
  using get_fold_names_rejects_only_zero_splits [of "fold_generator_init 0 3 2" "\<lambda>seed xs. xs"]
  by (simp add: fold_generator_init_def)

text \<open>
  The claim as stated fails: two identifiers and three splits are not rejected. The call
  returns three folds, one of them with an empty test subset, one with an empty
  validation subset and one with an empty training subset. (The permutation of the
  shuffle is taken to be the identity here; any other permutation renames the
  identifiers.)
\<close>

theorem get_fold_names_accepts_fewer_ids_than_splits:
  "get_fold_names (\<lambda>seed xs. xs) (fold_generator_init 0 3 2) =
     Inr ([([], [1], [0], 0), ([0], [], [1], 1), ([1], [0], [], 2)],
       \<lparr>tr_ix = [], val_ix = [1], te_ix = [0], slicer = 1, missing = 1,
          fold_no = 3, len_data = 2, n_splits = 3, myseed = 0, boost_val = 0,
          l_len = 2, mod_len = 2\<rparr>)"
  by (simp add: get_fold_names_def fold_generator_init_def init_indices_def new_fold_def Let_def
      slice_to_def slice_from_def fancy_index_def eval_nat_numeral)

subsection \<open>Lengths of the test subsets\<close>

text \<open>
  Claim C7, as amended. Let \<open>L\<close> identifiers be split \<open>N\<close> ways with remainder
  \<open>L mod N \<ge> 2\<close>, and let \<open>slice_len = ceil(L / N) = L div N + 1\<close> (the value the
  generator keeps in \<open>slicer\<close>). Then the test subsets of folds 0 and 1 have length
  \<open>slice_len\<close>, those of the next \<open>N - L mod N\<close> folds have length \<open>slice_len - 1\<close>, and
  those of the remaining folds have length \<open>slice_len\<close> again; the test subsets, taken in
  fold order, are consecutive pieces of the shuffled identifier array and make up all
  of it, so they partition the identifiers.
\<close>

theorem test_lengths_schedule:
  assumes seed: "0 \<le> seed" "seed < 2 ^ 32"
    and len: "length (shuffle seed [0..<L]) = L"
    and N: "0 < N" and r: "2 \<le> L mod N"
  shows "\<exists>names g'. get_fold_names shuffle (fold_generator_init seed (int N) (int L)) = Inr (names, g')
     \<and> length names = N \<and> slicer g' = int (L div N) + 1
     \<and> (\<forall>k<N. length (test_names (names ! k)) =
            (if k < 2 \<or> N - L mod N + 2 \<le> k then L div N + 1 else L div N))
     \<and> concat (map test_names names) = shuffle seed [0..<L]"
proof -
  define cv where "cv = shuffle seed [0..<L]"
  define g0 where "g0 = (fold_generator_init seed (int N) (int L))\<lparr>l_len := length cv\<rparr>"
  have g0: "n_splits g0 = int N" "l_len g0 = L" "fold_no g0 = 0"
    using len by (simp_all add: g0_def fold_generator_init_def cv_def)
  from init_indices_rot_inv [OF N r g0] obtain g1 where
    g1: "init_indices g0 = Inr g1" "rot_inv L N 0 g1" by blast
  have n1: "n_splits g1 = int N" "slicer g1 = int (L div N) + 1"
    using g1(2) by (simp_all add: rot_inv_def)
  have cvl: "length cv = L" using len by (simp add: cv_def)
  from fold_loop_rot [OF N r cvl g1(2), of N "[]"] obtain names g' where
    res: "fold_loop N cv g1 [] = Inr (names, g')" "length names = N" "slicer g' = slicer g1"
      "\<forall>i<N. test_names (names ! i) =
          map (\<lambda>x. cv ! x) (take (test_len L N i) (drop (test_off L N i) [0..<L]))"
    by auto
  have run: "get_fold_names shuffle (fold_generator_init seed (int N) (int L)) = Inr (names, g')"
    using seed g1(1) res(1) n1
    by (simp add: get_fold_names_def Let_def fold_generator_init_def g0_def cv_def)
  have lens: "\<forall>k<N. length (test_names (names ! k)) =
            (if k < 2 \<or> N - L mod N + 2 \<le> k then L div N + 1 else L div N)"
  proof (intro allI impI)
    fix k assume k: "k < N"
    have "length (test_names (names ! k)) = min (test_len L N k) (L - test_off L N k)"
      using res(4) k by simp
    also have "\<dots> = test_len L N k"
      using test_off_len_le [OF N r k] by simp
    finally show "length (test_names (names ! k)) =
            (if k < 2 \<or> N - L mod N + 2 \<le> k then L div N + 1 else L div N)"
      by (simp add: test_len_def)
  qed
  have "map test_names names = map (\<lambda>i. test_names (names ! i)) [0..<N]"
    by (rule nth_equalityI) (simp_all add: res(2))
  also have "\<dots> = map (\<lambda>i. map (\<lambda>x. cv ! x) (take (test_len L N i) (drop (test_off L N i) [0..<L]))) [0..<N]"
    using res(4) by simp
  finally have "concat (map test_names names) =
      map (\<lambda>x. cv ! x) (concat (map (\<lambda>i. take (test_len L N i) (drop (test_off L N i) [0..<L])) [0..<N]))"
    by (simp only: concat_map_map)
  also have "\<dots> = map (\<lambda>x. cv ! x) [0..<L]"
    by (simp only: concat_test_slices test_off_total [OF N r]) simp
  also have "\<dots> = cv"
    unfolding cvl [symmetric] by (rule map_nth)
  finally have "concat (map test_names names) = shuffle seed [0..<L]"
    by (simp add: cv_def)
  with run res(2,3) n1 lens show ?thesis by auto
qed

theorem test_lengths_schedule_witness:
  "(0::int) \<le> 42 \<and> (42::int) < 2 ^ 32 \<and> length (rev [0..<5]) = 5 \<and> (0::nat) < 3 \<and>
   2 \<le> (5::nat) mod 3 \<and>
   (\<exists>names g'. get_fold_names (\<lambda>seed xs. rev xs) (fold_generator_init 42 (int 3) (int 5))
        = Inr (names, g')
     \<and> length names = 3 \<and> slicer g' = int (5 div 3) + 1
     \<and> (\<forall>k<3. length (test_names (names ! k)) =
            (if k < 2 \<or> 3 - 5 mod 3 + 2 \<le> k then 5 div 3 + 1 else 5 div 3))
     \<and> concat (map test_names names) = rev [0..<5])"
  using test_lengths_schedule [of 42 "\<lambda>seed xs. rev xs" 5 3]
  by simp

text \<open>
  The claim as stated fails: for five identifiers and three splits the remainder is 2
  and \<open>slice_len\<close> is 2, so the claim gives the first \<open>3 - 2 = 1\<close> fold a test subset of
  length 2 and the two later folds length 1, four identifiers in all. The code gives
  the test subsets the lengths 2, 2 and 1.
\<close>

theorem test_lengths_five_ids_three_splits:
  "map_sum id (\<lambda>r. map (\<lambda>f. length (test_names f)) (fst r))
     (get_fold_names (\<lambda>seed xs. xs) (fold_generator_init 42 3 5)) = Inr [2, 2, 1]"
  by (simp add: get_fold_names_def fold_generator_init_def init_indices_def new_fold_def Let_def
      slice_to_def slice_from_def fancy_index_def test_names_def eval_nat_numeral)

subsection \<open>The subsets of a fold\<close>

text \<open>
  Every call of \<open>new_fold\<close> permutes the indices it holds, so in every fold that
  \<open>get_fold_names\<close> returns the training, validation and test subsets together are a
  permutation of the shuffled identifier array: with distinct identifiers the three
  subsets are pairwise disjoint and their union is the full identifier set.
\<close>

lemma mset_slices: "mset (slice_to k xs) + mset (slice_from k xs) = mset xs"
  by (metis mset_append slice_to_from_append)

lemma new_fold_mset:
  "mset (tr_ix (new_fold g) @ val_ix (new_fold g) @ te_ix (new_fold g))
     = mset (tr_ix g @ val_ix g @ te_ix g)"
proof -
  have a: "\<And>k. mset (slice_to k (tr_ix g)) + mset (slice_from k (tr_ix g)) = mset (tr_ix g)"
    by (rule mset_slices)
  have b: "mset (slice_to (- 1) (val_ix g)) + mset (slice_from (- 1) (val_ix g)) = mset (val_ix g)"
    by (rule mset_slices)
  show ?thesis
    using a b by (auto simp: new_fold_def Let_def ac_simps)
qed

lemma fancy_index_mset:
  assumes "mset ixs = mset [0..<length cv]"
  shows "fancy_index cv ixs = Inr (map (\<lambda>i. cv ! i) ixs)"
    and "mset (map (\<lambda>i. cv ! i) ixs) = mset cv"
proof -
  have "set ixs = {0..<length cv}"
    using assms by (metis mset_eq_setD set_upt)
  then show "fancy_index cv ixs = Inr (map (\<lambda>i. cv ! i) ixs)"
    by (auto simp: fancy_index_def list_all_iff)
  have "mset (map (\<lambda>i. cv ! i) ixs) = image_mset (\<lambda>i. cv ! i) (mset [0..<length cv])"
    using assms by (metis mset_map)
  also have "\<dots> = mset (map (\<lambda>i. cv ! i) [0..<length cv])" by simp
  also have "\<dots> = mset cv" by (simp add: map_nth)
  finally show "mset (map (\<lambda>i. cv ! i) ixs) = mset cv" .
qed

lemma fold_loop_permutes:
  "mset (tr_ix g @ val_ix g @ te_ix g) = mset [0..<length cv] \<Longrightarrow>
   fold_loop k cv g acc = Inr (names, g') \<Longrightarrow>
   list_all (\<lambda>f. mset (train_names f @ val_names f @ test_names f) = mset cv) acc \<Longrightarrow>
   list_all (\<lambda>f. mset (train_names f @ val_names f @ test_names f) = mset cv) names"
proof (induction k arbitrary: g acc)
  case 0
  then show ?case by simp
next
  case (Suc k)
  let ?g2 = "(new_fold g)\<lparr>fold_no := fold_no (new_fold g) + 1\<rparr>"
  let ?e = "(map (\<lambda>i. cv ! i) (tr_ix g), map (\<lambda>i. cv ! i) (val_ix g),
      map (\<lambda>i. cv ! i) (te_ix g), fold_no g)"
  have sub: "set (tr_ix g) \<subseteq> {0..<length cv}" "set (val_ix g) \<subseteq> {0..<length cv}"
      "set (te_ix g) \<subseteq> {0..<length cv}"
    using mset_eq_setD [OF Suc.prems(1)] by auto
  then have fi: "fancy_index cv (tr_ix g) = Inr (map (\<lambda>i. cv ! i) (tr_ix g))"
      "fancy_index cv (val_ix g) = Inr (map (\<lambda>i. cv ! i) (val_ix g))"
      "fancy_index cv (te_ix g) = Inr (map (\<lambda>i. cv ! i) (te_ix g))"
    by (auto simp: fancy_index_def list_all_iff)
  have step: "fold_loop k cv ?g2 (acc @ [?e]) = Inr (names, g')"
    using Suc.prems(2) by (simp add: fi Let_def)
  have inv: "mset (tr_ix ?g2 @ val_ix ?g2 @ te_ix ?g2) = mset [0..<length cv]"
    using new_fold_mset [of g] Suc.prems(1) by simp
  have "mset (map (\<lambda>i. cv ! i) (tr_ix g @ val_ix g @ te_ix g)) = mset cv"
    using fancy_index_mset(2) [OF Suc.prems(1)] .
  then have e: "mset (train_names ?e @ val_names ?e @ test_names ?e) = mset cv"
    by (simp add: train_names_def val_names_def test_names_def)
  from Suc.IH [OF inv step] Suc.prems(3) e show ?case by simp
qed

lemma init_indices_mset:
  "init_indices g = Inr g' \<Longrightarrow> mset (tr_ix g' @ val_ix g' @ te_ix g') = mset [0..<l_len g]"
proof -
  assume a: "init_indices g = Inr g'"
  let ?t = "[0..<l_len g]"
  have s1: "\<And>k xs. mset (slice_to k xs) + mset (slice_from k xs) = mset (xs :: nat list)"
    by (rule mset_slices)
  from a obtain s where
    g': "te_ix g' = slice_to s ?t" "val_ix g' = slice_to s (slice_from s ?t)"
      "tr_ix g' = slice_from s (slice_from s ?t)"
    by (auto simp: init_indices_def Let_def split: if_splits)
  have "mset (tr_ix g' @ val_ix g' @ te_ix g')
      = (mset (slice_to s (slice_from s ?t)) + mset (slice_from s (slice_from s ?t)))
        + mset (slice_to s ?t)"
    by (simp add: g' ac_simps)
  also have "\<dots> = mset (slice_from s ?t) + mset (slice_to s ?t)"
    by (simp only: s1)
  also have "\<dots> = mset ?t"
    using s1 [of s ?t] by (simp add: ac_simps)
  finally show ?thesis .
qed

lemma fold_subsets_permute:
  assumes "get_fold_names shuffle g = Inr (names, g')"
  shows "list_all (\<lambda>f. mset (train_names f @ val_names f @ test_names f)
                      = mset (shuffle (myseed g) [0..<nat (len_data g)])) names"
proof -
  let ?cv = "shuffle (myseed g) [0..<nat (len_data g)]"
  from assms obtain g2 where
    i: "init_indices (g\<lparr>l_len := length ?cv\<rparr>) = Inr g2"
    and l: "fold_loop (nat (n_splits g2)) ?cv g2 [] = Inr (names, g')"
    by (auto simp: get_fold_names_def Let_def split: if_splits sum.splits)
  from init_indices_mset [OF i] have "mset (tr_ix g2 @ val_ix g2 @ te_ix g2) = mset [0..<length ?cv]"
    by simp
  from fold_loop_permutes [OF this l] show ?thesis by simp
qed

subsection \<open>Every identifier is tested once\<close>

text \<open>
  Claim C1 does not hold of the code. For ten identifiers and three splits the
  remainder is 1, and \<open>new_fold\<close> moves the last validation index into the training
  indices at fold \<open>n_splits - 2\<close>; the validation slice it shortens was already one index
  short, so the last fold tests a single identifier and identifier 9 of the shuffled
  array is in no test subset. Within each fold the three subsets are still disjoint
  and cover all identifiers (\<open>fold_subsets_permute\<close>).
\<close>

theorem ten_ids_three_splits_miss_one_test_id:
  "map_sum id fst (get_fold_names (\<lambda>seed xs. xs) (fold_generator_init 42 3 10)) =
     Inr [([8, 9], [4, 5, 6, 7], [0, 1, 2, 3], 0),
          ([0, 1, 2, 3], [8, 9], [4, 5, 6, 7], 1),
          ([3, 4, 5, 6, 7, 9], [0, 1, 2], [8], 2)]"
  by (simp add: get_fold_names_def fold_generator_init_def init_indices_def new_fold_def Let_def
      slice_to_def slice_from_def fancy_index_def eval_nat_numeral)

subsection \<open>Repeated runs\<close>

text \<open>
  \<open>get_fold_names\<close> overwrites the index lists, \<open>slicer\<close>, \<open>l\<close> and \<open>mod\<close> before it
  reads them, \<open>boost_val\<close> is never read, and the random source is consulted once, for
  the shuffle of \<open>arange(len_data)\<close> under the generator's seed.
\<close>

lemma get_fold_names_overwrites_stale_fields:
  "get_fold_names shuffle
       (g\<lparr>tr_ix := a, val_ix := b, te_ix := c, slicer := d, l_len := e, mod_len := f\<rparr>)
     = get_fold_names shuffle g"
  by (simp add: get_fold_names_def init_indices_def Let_def)

lemma new_fold_boost_val:
  "new_fold (g\<lparr>boost_val := x\<rparr>) = (new_fold g)\<lparr>boost_val := x\<rparr>"
  by (simp add: new_fold_def Let_def)

lemma fold_loop_boost_val:
  "map_sum id fst (fold_loop k cv (g\<lparr>boost_val := x\<rparr>) acc) = map_sum id fst (fold_loop k cv g acc)"
proof (induction k arbitrary: g acc)
  case 0
  then show ?case by simp
next
  case (Suc k)
  have "(new_fold (g\<lparr>boost_val := x\<rparr>))\<lparr>fold_no := fold_no (new_fold (g\<lparr>boost_val := x\<rparr>)) + 1\<rparr>
      = ((new_fold g)\<lparr>fold_no := fold_no (new_fold g) + 1\<rparr>)\<lparr>boost_val := x\<rparr>"
    by (simp add: new_fold_boost_val)
  then show ?case
    by (simp add: Let_def Suc.IH [unfolded id_def] split: sum.splits)
qed

lemma get_fold_names_boost_val:
  "map_sum id fst (get_fold_names shuffle (g\<lparr>boost_val := x\<rparr>)) = map_sum id fst (get_fold_names shuffle g)"
proof -
  have "init_indices (g\<lparr>boost_val := x, l_len := n\<rparr>) = map_sum id (\<lambda>h. h\<lparr>boost_val := x\<rparr>) (init_indices (g\<lparr>l_len := n\<rparr>))" for n
    by (simp add: init_indices_def Let_def)
  then show ?thesis
    by (auto simp add: get_fold_names_def Let_def fold_loop_boost_val split: sum.splits)
qed

lemma get_fold_names_shuffle_cong:
  assumes "shuffle' (myseed g) [0..<nat (len_data g)] = shuffle (myseed g) [0..<nat (len_data g)]"
  shows "get_fold_names shuffle' g = get_fold_names shuffle g"
  using assms by (simp add: get_fold_names_def)

text \<open>
  Claim C8, as amended. The fold sequence depends on the random source only through
  the one shuffle of \<open>arange(len_data)\<close> drawn from a source seeded with the generator's
  seed, and on the generator only through the seed, \<open>n_splits\<close>, \<open>len_data\<close>, the fold
  counter and \<open>missing\<close> at the call. Two generators that agree on these five values,
  run with random sources that return the same permutation for that seed and that
  array, return identical fold sequences, whatever their index lists, \<open>slicer\<close>, \<open>l\<close>,
  \<open>mod\<close> and \<open>boost_val\<close> hold and whatever the sources return for other seeds or
  arrays. In particular two generators constructed with the same arguments return
  identical fold sequences.
\<close>

theorem fold_sequence_fixed_by_seeded_shuffle:
  assumes "myseed g' = myseed g" and "n_splits g' = n_splits g" and "len_data g' = len_data g"
    and "fold_no g' = fold_no g" and "missing g' = missing g"
    and "shuffle' (myseed g) [0..<nat (len_data g)] = shuffle (myseed g) [0..<nat (len_data g)]"
  shows "map_sum id fst (get_fold_names shuffle' g') = map_sum id fst (get_fold_names shuffle g)"
proof -
  have "g' = (g\<lparr>boost_val := boost_val g'\<rparr>)\<lparr>tr_ix := tr_ix g', val_ix := val_ix g',
         te_ix := te_ix g', slicer := slicer g', l_len := l_len g', mod_len := mod_len g'\<rparr>"
    using assms(1-5) by simp
  then have "get_fold_names shuffle' g' =
      get_fold_names shuffle' ((g\<lparr>boost_val := boost_val g'\<rparr>)\<lparr>tr_ix := tr_ix g', val_ix := val_ix g',
         te_ix := te_ix g', slicer := slicer g', l_len := l_len g', mod_len := mod_len g'\<rparr>)"
    by (rule arg_cong)
  also have "\<dots> = get_fold_names shuffle' (g\<lparr>boost_val := boost_val g'\<rparr>)"
    by (rule get_fold_names_overwrites_stale_fields)
  finally have "map_sum id fst (get_fold_names shuffle' g') = map_sum id fst (get_fold_names shuffle' g)"
    by (simp add: get_fold_names_boost_val)
  then show ?thesis
    using get_fold_names_shuffle_cong [of shuffle' g shuffle] assms(6) by simp
qed

theorem fold_sequence_fixed_by_seeded_shuffle_witness:
  "myseed ((fold_generator_init 42 3 7)\<lparr>tr_ix := [9], slicer := 5, boost_val := 1\<rparr>)
      = myseed (fold_generator_init 42 3 7)
   \<and> n_splits ((fold_generator_init 42 3 7)\<lparr>tr_ix := [9], slicer := 5, boost_val := 1\<rparr>)
      = n_splits (fold_generator_init 42 3 7)
   \<and> len_data ((fold_generator_init 42 3 7)\<lparr>tr_ix := [9], slicer := 5, boost_val := 1\<rparr>)
      = len_data (fold_generator_init 42 3 7)
   \<and> fold_no ((fold_generator_init 42 3 7)\<lparr>tr_ix := [9], slicer := 5, boost_val := 1\<rparr>)
      = fold_no (fold_generator_init 42 3 7)
   \<and> missing ((fold_generator_init 42 3 7)\<lparr>tr_ix := [9], slicer := 5, boost_val := 1\<rparr>)
      = missing (fold_generator_init 42 3 7)
   \<and> (\<lambda>seed xs. if seed = 42 then rev xs else rotate1 xs) (myseed (fold_generator_init 42 3 7))
        [0..<nat (len_data (fold_generator_init 42 3 7))]
      = (\<lambda>seed xs. rev xs) (myseed (fold_generator_init 42 3 7))
        [0..<nat (len_data (fold_generator_init 42 3 7))]
   \<and> map_sum id fst (get_fold_names (\<lambda>seed xs. if seed = 42 then rev xs else rotate1 xs)
        ((fold_generator_init 42 3 7)\<lparr>tr_ix := [9], slicer := 5, boost_val := 1\<rparr>))
      = map_sum id fst (get_fold_names (\<lambda>seed xs. rev xs) (fold_generator_init 42 3 7))"
  using fold_sequence_fixed_by_seeded_shuffle
    [of "(fold_generator_init 42 3 7)\<lparr>tr_ix := [9], slicer := 5, boost_val := 1\<rparr>"
        "fold_generator_init 42 3 7" "\<lambda>seed xs. if seed = 42 then rev xs else rotate1 xs"
        "\<lambda>seed xs. rev xs"]
  by (simp add: fold_generator_init_def)

text \<open>
  The claim as stated fails for repeated calls on the same generator. The fold counter
  is not reset: for seven identifiers and three splits the second call runs with fold
  counter 3, so neither the shortened slices nor the shift of \<open>new_fold\<close> apply, and it
  returns other subsets (and the fold indices 3, 4, 5).
\<close>

theorem second_call_returns_other_folds:
  "map_sum id fst (get_fold_names (\<lambda>seed xs. xs) (fold_generator_init 42 3 7)) =
     Inr [([6], [3, 4, 5], [0, 1, 2], 0), ([0, 1, 2], [6], [3, 4, 5], 1),
          ([2, 3, 4, 5, 6], [0, 1], [], 2)]
   \<and> map_sum id fst (get_fold_names (\<lambda>seed xs. xs)
        (snd (projr (get_fold_names (\<lambda>seed xs. xs) (fold_generator_init 42 3 7))))) =
     Inr [([6], [3, 4, 5], [0, 1, 2], 3), ([0, 1, 2], [6], [3, 4, 5], 4),
          ([3, 4, 5], [0, 1, 2], [6], 5)]"
  by code_simp

section \<open>Properties of get_class_balanced_patients\<close>

lemma find_snoc:
  "find P (xs @ [x]) =
     (case find P xs of None \<Rightarrow> (if P x then Some x else None) | Some y \<Rightarrow> Some y)"
  by (induction xs) simp_all

lemma scan_not_picked_find:
  assumes "1 \<le> nc"
  shows "set pool \<subseteq> dom ct \<Longrightarrow>
    scan_not_picked ct nc rarest ix thr pool pick =
      Inr (case find (\<lambda>p. holds_class ct rarest p
                          \<and> (ix < thr \<or> own_rarest_class ct nc p \<noteq> rarest)) pool of
             Some p \<Rightarrow> p
           | None \<Rightarrow>
               (case find (holds_class ct rarest) (rev pool) of Some p \<Rightarrow> p | None \<Rightarrow> pick))"
proof (induction pool arbitrary: pick)
  case Nil
  then show ?case by simp
next
  case (Cons cand rest)
  then obtain targets where t: "ct cand = Some targets" by auto
  have ne: "map (count_nonzero_eq targets) [1..nc] \<noteq> []"
    using assms by (simp add: upto.simps)
  then obtain a where a: "argmin (map (count_nonzero_eq targets) [1..nc]) = Inr a"
    by (simp add: argmin_def)
  have IH: "\<And>pick. scan_not_picked ct nc rarest ix thr rest pick =
      Inr (case find (\<lambda>p. holds_class ct rarest p
                          \<and> (ix < thr \<or> own_rarest_class ct nc p \<noteq> rarest)) rest of
             Some p \<Rightarrow> p
           | None \<Rightarrow>
               (case find (holds_class ct rarest) (rev rest) of Some p \<Rightarrow> p | None \<Rightarrow> pick))"
    using Cons by simp
  show ?case
    by (simp add: t a IH holds_class_def own_rarest_class_def Let_def find_snoc
        split: option.splits)
qed

text \<open>
  One batch slot and the loop over the slots. As long as every patient has a class
  table, \<open>all_pids\<close> is not empty and the shuffle returns a rearrangement of its
  argument, no slot fails, the pool stays within \<open>all_pids\<close>, and each slot appends its
  pick to \<open>batch_patients\<close> and sets \<open>rarest_class\<close> to the first class with the
  smallest count.
\<close>

lemma find_in_set: "find P xs = Some x \<Longrightarrow> x \<in> set xs"
  by (induction xs) (auto split: if_splits)

lemma slot_pick_in_pool:
  assumes "pool \<noteq> []"
  shows "slot_pick ct nc rarest early pool \<in> set pool"
proof -
  have "hd pool \<in> set pool" using assms by simp
  moreover have "find P (rev pool) = Some x \<Longrightarrow> x \<in> set pool" for P x
    using find_in_set [of P "rev pool" x] by simp
  ultimately show ?thesis
    by (auto simp add: slot_pick_def dest: find_in_set split: option.splits)
qed

lemma argmin_bound:
  assumes "xs \<noteq> []"
  shows "\<exists>a. argmin xs = Inr a \<and> a < length xs"
proof -
  have "Min (set xs) \<in> set xs" using assms by simp
  then have "takeWhile (\<lambda>x. x \<noteq> Min (set xs)) xs \<noteq> xs"
    by (auto simp add: takeWhile_eq_all_conv)
  then have "length (takeWhile (\<lambda>x. x \<noteq> Min (set xs)) xs) \<noteq> length xs"
    using takeWhile_eq_take [of "\<lambda>x. x \<noteq> Min (set xs)" xs] by auto
  then have "length (takeWhile (\<lambda>x. x \<noteq> Min (set xs)) xs) < length xs"
    using length_takeWhile_le [of "\<lambda>x. x \<noteq> Min (set xs)" xs] by linarith
  then show ?thesis using assms by (simp add: argmin_def)
qed

lemma sample_slot_result:
  assumes sh: "\<forall>g xs. set (fst (shuffle g xs)) = set xs"
    and ne: "all_pids \<noteq> []" and dom: "set all_pids \<subseteq> dom ct" and nc: "1 \<le> nc"
    and inv: "set (not_picked s) \<subseteq> set all_pids" "length (class_counts s) = nat nc"
  shows "\<exists>s'. sample_slot shuffle fl all_pids ct bs nc rr ix s = Inr s'
      \<and> set (not_picked s') \<subseteq> set all_pids \<and> length (class_counts s') = nat nc
      \<and> batch_patients s' = batch_patients s @
           [slot_pick ct nc (rarest_class s) (ix < py_int (fl (of_int bs * rr)))
              (slot_pool shuffle all_pids s)]
      \<and> argmin (class_counts s') = Inr (nat (rarest_class s' - 1)) \<and> 1 \<le> rarest_class s'"
proof -
  define pool0 where "pool0 = (if not_picked s = [] then all_pids else not_picked s)"
  define pool where "pool = fst (shuffle (rng s) pool0)"
  define g' where "g' = snd (shuffle (rng s) pool0)"
  define thr where "thr = py_int (fl (of_int bs * rr))"
  have pool0: "pool0 \<noteq> []" "set pool0 \<subseteq> set all_pids"
    using ne inv(1) by (auto simp add: pool0_def)
  have pset: "set pool = set pool0" by (simp add: pool_def sh)
  then have pne: "pool \<noteq> []" using pool0(1) by auto
  have pdom: "set pool \<subseteq> dom ct" using pset pool0(2) dom by auto
  have shp: "shuffle (rng s) pool0 = (pool, g')" by (simp add: pool_def g'_def)
  obtain first rest where fr: "pool = first # rest" using pne by (cases pool) auto
  define pick where "pick = slot_pick ct nc (rarest_class s) (ix < thr) pool"
  have "scan_not_picked ct nc (rarest_class s) ix thr pool first =
      Inr (case find (\<lambda>p. holds_class ct (rarest_class s) p
                          \<and> (ix < thr \<or> own_rarest_class ct nc p \<noteq> rarest_class s)) pool of
             Some p \<Rightarrow> p
           | None \<Rightarrow>
               (case find (holds_class ct (rarest_class s)) (rev pool) of
                  Some p \<Rightarrow> p | None \<Rightarrow> first))"
    by (rule scan_not_picked_find [OF nc pdom])
  moreover have "first = hd pool" using fr by simp
  ultimately have scan: "scan_not_picked ct nc (rarest_class s) ix thr pool first = Inr pick"
    by (simp only: pick_def slot_pick_def)
  have "pick \<in> set pool" unfolding pick_def by (rule slot_pick_in_pool [OF pne])
  then obtain targets where t: "ct pick = Some targets" using pdom by auto
  define counts where "counts = map (\<lambda>(c, n). n + count_nonzero_eq targets c)
                                       (zip [1..nc] (class_counts s))"
  have lc: "length counts = nat nc" using inv(2) nc by (simp add: counts_def)
  then have "counts \<noteq> []" using nc by auto
  then obtain a where a: "argmin counts = Inr a" "a < length counts"
    using argmin_bound by blast
  define s' where "s' = s\<lparr>not_picked := filter (\<lambda>p. p \<noteq> pick) pool, rng := g',
       class_counts := counts, rarest_class := int a + 1,
       batch_patients := batch_patients s @ [pick]\<rparr>"
  have step: "sample_slot shuffle fl all_pids ct bs nc rr ix s = Inr s'"
  proof (cases "not_picked s = []")
    case True
    then have "shuffle (rng s) all_pids = (pool, g')" using shp by (simp add: pool0_def)
    then show ?thesis
      using True scan t a(1)
      by (simp add: sample_slot_def Let_def fr thr_def [symmetric] counts_def [symmetric] s'_def)
  next
    case False
    then have "shuffle (rng s) (not_picked s) = (pool, g')" using shp by (simp add: pool0_def)
    then show ?thesis
      using False scan t a(1)
      by (simp add: sample_slot_def Let_def fr thr_def [symmetric] counts_def [symmetric] s'_def)
  qed
  have "set (not_picked s') \<subseteq> set all_pids"
    using pset pool0(2) by (auto simp add: s'_def)
  moreover have "slot_pool shuffle all_pids s = pool"
    by (simp add: slot_pool_def pool_def pool0_def)
  ultimately show ?thesis
    using step lc a by (auto simp add: s'_def pick_def thr_def)
qed

lemma sample_loop_result:
  assumes sh: "\<forall>g xs. set (fst (shuffle g xs)) = set xs"
    and ne: "all_pids \<noteq> []" and dom: "set all_pids \<subseteq> dom ct" and nc: "1 \<le> nc"
  shows "set (not_picked s) \<subseteq> set all_pids \<Longrightarrow> length (class_counts s) = nat nc \<Longrightarrow>
    \<exists>s'. sample_loop shuffle fl all_pids ct bs nc rr k ix s = Inr s'
      \<and> set (not_picked s') \<subseteq> set all_pids \<and> length (class_counts s') = nat nc
      \<and> (\<exists>more. batch_patients s' = batch_patients s @ more \<and> length more = k)
      \<and> (0 < k \<longrightarrow> argmin (class_counts s') = Inr (nat (rarest_class s' - 1))
                     \<and> 1 \<le> rarest_class s')"
proof (induction k arbitrary: ix s)
  case 0
  then show ?case by simp
next
  case (Suc k)
  obtain s1 where s1: "sample_slot shuffle fl all_pids ct bs nc rr ix s = Inr s1"
      "set (not_picked s1) \<subseteq> set all_pids" "length (class_counts s1) = nat nc"
      "\<exists>p. batch_patients s1 = batch_patients s @ [p]"
      "argmin (class_counts s1) = Inr (nat (rarest_class s1 - 1))" "1 \<le> rarest_class s1"
    using sample_slot_result [OF sh ne dom nc Suc.prems, where fl = fl and bs = bs and rr = rr and ix = ix] by blast
  obtain s' where s': "sample_loop shuffle fl all_pids ct bs nc rr k (ix + 1) s1 = Inr s'"
      "set (not_picked s') \<subseteq> set all_pids" "length (class_counts s') = nat nc"
      "\<exists>more. batch_patients s' = batch_patients s1 @ more \<and> length more = k"
      "0 < k \<longrightarrow> argmin (class_counts s') = Inr (nat (rarest_class s' - 1))
                     \<and> 1 \<le> rarest_class s'"
    using Suc.IH [OF s1(2,3), where ix = "ix + 1"] by blast
  have run: "sample_loop shuffle fl all_pids ct bs nc rr (Suc k) ix s = Inr s'"
    using s1(1) s'(1) by simp
  have k0: "k = 0 \<Longrightarrow> s' = s1" using s'(1) by simp
  obtain p more where "batch_patients s' = batch_patients s @ (p # more)" "length more = k"
    using s1(4) s'(4) by auto
  then have "\<exists>more. batch_patients s' = batch_patients s @ more \<and> length more = Suc k"
    by (intro exI [of _ "p # more"]) simp
  moreover have "argmin (class_counts s') = Inr (nat (rarest_class s' - 1)) \<and> 1 \<le> rarest_class s'"
    using s'(5) k0 s1(5,6) by (cases "k = 0") auto
  ultimately show ?case using run s'(2,3) by blast
qed

lemma sample_loop_add:
  "sample_loop shuffle fl all_pids ct bs nc rr (i + j) ix s =
     (case sample_loop shuffle fl all_pids ct bs nc rr i ix s of
        Inl e \<Rightarrow> Inl e
      | Inr s' \<Rightarrow> sample_loop shuffle fl all_pids ct bs nc rr j (ix + int i) s')"
proof (induction i arbitrary: ix s)
  case 0
  then show ?case by simp
next
  case (Suc i)
  show ?case
    by (simp add: Suc.IH add.assoc split: sum.splits)
qed

text \<open>
  Claim C5, as amended. Let every patient have a class table, \<open>all_pids\<close> be non-empty
  and \<open>np.random.shuffle\<close> rearrange its argument. Then
  \<open>get_class_balanced_patients\<close> returns a batch of \<open>batch_size\<close> patients, and for
  every slot \<open>i\<close> of it, with \<open>s\<close> the state the loop has reached after \<open>i\<close> slots
  (\<open>i\<close> slots are filled; the rarest class is the initial draw in slot 0 and afterwards
  the first class with the smallest count), the patient in slot \<open>i\<close> is found in the
  shuffled pool as follows: the scan accepts the first candidate that holds the current
  rarest class and that either is scanned while fewer than
  \<open>int(batch_size * random_ratio)\<close> slots are filled or has an own rarest class different
  from the global rarest class. If the scan ends without such a candidate, the pick is
  the last candidate of the pool that holds the rarest class, and the first element of
  the pool if no candidate holds it.
\<close>

theorem balanced_sampler_slot_pick:
  assumes "\<And>g xs. set (fst (shuffle g xs)) = set xs"
    and "all_pids \<noteq> []" and "set all_pids \<subseteq> dom class_targets"
    and "1 \<le> num_classes" and "i < nat batch_size"
  shows "\<exists>s batch g'.
     sample_loop shuffle fl all_pids class_targets batch_size num_classes random_ratio i 0
        \<lparr>rng = snd (randint g 1 (num_classes + 1)),
         class_counts = replicate (nat num_classes) 0, not_picked = all_pids,
         batch_patients = [], rarest_class = fst (randint g 1 (num_classes + 1))\<rparr> = Inr s
     \<and> length (batch_patients s) = i
     \<and> Inr (rarest_class s) =
         (if i = 0 then Inr (fst (randint g 1 (num_classes + 1)))
          else map_sum id (\<lambda>a. int a + 1) (argmin (class_counts s)))
     \<and> get_class_balanced_patients randint shuffle fl g all_pids class_targets batch_size
          num_classes random_ratio = Inr (batch, g')
     \<and> length batch = nat batch_size
     \<and> take i batch = batch_patients s
     \<and> batch ! i =
         (let pool = fst (shuffle (rng s) (if not_picked s = [] then all_pids else not_picked s))
          in case find (\<lambda>p. holds_class class_targets (rarest_class s) p
                            \<and> (int i < py_int (fl (of_int batch_size * random_ratio))
                                 \<or> own_rarest_class class_targets num_classes p \<noteq> rarest_class s))
                    pool of
               Some p \<Rightarrow> p
             | None \<Rightarrow>
                 (case find (holds_class class_targets (rarest_class s)) (rev pool) of
                    Some p \<Rightarrow> p
                  | None \<Rightarrow> hd pool))"
proof -
  have sh: "\<forall>g xs. set (fst (shuffle g xs)) = set xs" using assms(1) by simp
  define s0 where "s0 = \<lparr>rng = snd (randint g 1 (num_classes + 1)),
         class_counts = replicate (nat num_classes) 0, not_picked = all_pids,
         batch_patients = [], rarest_class = fst (randint g 1 (num_classes + 1))\<rparr>"
  define m where "m = nat batch_size - Suc i"
  have n: "nat batch_size = i + Suc m" using assms(5) by (simp add: m_def)
  have inv0: "set (not_picked s0) \<subseteq> set all_pids" "length (class_counts s0) = nat num_classes"
    by (simp_all add: s0_def)
  note loop = sample_loop_result [OF sh assms(2-4), where fl = fl and bs = batch_size
      and rr = random_ratio]
  obtain s where s: "sample_loop shuffle fl all_pids class_targets batch_size num_classes
        random_ratio i 0 s0 = Inr s"
      "set (not_picked s) \<subseteq> set all_pids" "length (class_counts s) = nat num_classes"
      "\<exists>more. batch_patients s = batch_patients s0 @ more \<and> length more = i"
      "0 < i \<longrightarrow> argmin (class_counts s) = Inr (nat (rarest_class s - 1)) \<and> 1 \<le> rarest_class s"
    using loop [OF inv0, where k = i and ix = 0] by blast
  have len: "length (batch_patients s) = i" using s(4) by (auto simp add: s0_def)
  define pick where "pick = slot_pick class_targets num_classes (rarest_class s)
      (int i < py_int (fl (of_int batch_size * random_ratio))) (slot_pool shuffle all_pids s)"
  obtain s1 where s1: "sample_slot shuffle fl all_pids class_targets batch_size num_classes
        random_ratio (int i) s = Inr s1"
      "set (not_picked s1) \<subseteq> set all_pids" "length (class_counts s1) = nat num_classes"
      "batch_patients s1 = batch_patients s @ [pick]"
    using sample_slot_result [OF sh assms(2-4) s(2,3), where fl = fl and bs = batch_size
        and rr = random_ratio and ix = "int i"]
    unfolding pick_def by blast
  obtain s2 where s2: "sample_loop shuffle fl all_pids class_targets batch_size num_classes
        random_ratio m (int i + 1) s1 = Inr s2"
      "\<exists>more. batch_patients s2 = batch_patients s1 @ more \<and> length more = m"
    using loop [OF s1(2,3), where k = m and ix = "int i + 1"] by blast
  have run: "sample_loop shuffle fl all_pids class_targets batch_size num_classes
        random_ratio (nat batch_size) 0 s0 = Inr s2"
    unfolding n sample_loop_add using s(1) s1(1) s2(1) by simp
  have "0 \<le> batch_size" using assms(5) by simp
  then have res: "get_class_balanced_patients randint shuffle fl g all_pids class_targets
      batch_size num_classes random_ratio = Inr (batch_patients s2, rng s2)"
    using assms(4) run
    by (simp add: get_class_balanced_patients_def case_prod_beta Let_def s0_def)
  obtain more where more: "batch_patients s2 = batch_patients s @ pick # more" "length more = m"
    using s2(2) s1(4) by auto
  have rar: "Inr (rarest_class s) =
         (if i = 0 then Inr (fst (randint g 1 (num_classes + 1)))
          else map_sum id (\<lambda>a. int a + 1) (argmin (class_counts s)))"
  proof (cases "i = 0")
    case True
    then have "s = s0" using s(1) by simp
    then show ?thesis using True by (simp add: s0_def)
  next
    case False
    then show ?thesis using s(5) by simp
  qed
  have "length (batch_patients s2) = nat batch_size" using more len n by simp
  moreover have "take i (batch_patients s2) = batch_patients s" using more len by simp
  moreover have "batch_patients s2 ! i = pick" using more len by (simp add: nth_append)
  ultimately show ?thesis
    using s(1) len rar res
    unfolding s0_def pick_def slot_pick_def slot_pool_def Let_def by blast
qed

theorem balanced_sampler_slot_pick_witness:
  "(\<forall>g xs. set (fst ((\<lambda>g xs. (rotate g xs, Suc g)) g xs)) = set xs)
   \<and> [0, 1, 2::nat] \<noteq> []
   \<and> set [0, 1, 2::nat] \<subseteq> dom [0 \<mapsto> [2, 2], 1 \<mapsto> [1, 2], 2 \<mapsto> [1, 1, 2]]
   \<and> (1::int) \<le> 2 \<and> (1::nat) < nat 2
   \<and> (\<exists>s batch g'.
     sample_loop (\<lambda>g xs. (rotate g xs, Suc g)) (\<lambda>x. x) [0, 1, 2::nat]
        [0 \<mapsto> [2, 2], 1 \<mapsto> [1, 2], 2 \<mapsto> [1, 1, 2]] 2 2 (1 / 2) 1 0
        \<lparr>rng = snd ((\<lambda>g lo hi. (lo + int g mod (hi - lo), Suc g)) (0::nat) 1 (2 + 1)),
         class_counts = replicate (nat 2) 0, not_picked = [0, 1, 2],
         batch_patients = [],
         rarest_class = fst ((\<lambda>g lo hi. (lo + int g mod (hi - lo), Suc g)) (0::nat) 1 (2 + 1))\<rparr>
       = Inr s
     \<and> length (batch_patients s) = 1
     \<and> Inr (rarest_class s) =
         (if (1::nat) = 0
          then Inr (fst ((\<lambda>g lo hi. (lo + int g mod (hi - lo), Suc g)) (0::nat) 1 (2 + 1)))
          else map_sum id (\<lambda>a. int a + 1) (argmin (class_counts s)))
     \<and> get_class_balanced_patients (\<lambda>g lo hi. (lo + int g mod (hi - lo), Suc g))
          (\<lambda>g xs. (rotate g xs, Suc g)) (\<lambda>x. x) (0::nat) [0, 1, 2::nat]
          [0 \<mapsto> [2, 2], 1 \<mapsto> [1, 2], 2 \<mapsto> [1, 1, 2]] 2 2 (1 / 2) = Inr (batch, g')
     \<and> length batch = nat 2
     \<and> take 1 batch = batch_patients s
     \<and> batch ! 1 =
         (let pool = fst ((\<lambda>g xs. (rotate g xs, Suc g)) (rng s)
                            (if not_picked s = [] then [0, 1, 2] else not_picked s))
          in case find (\<lambda>p. holds_class [0 \<mapsto> [2, 2], 1 \<mapsto> [1, 2], 2 \<mapsto> [1, 1, 2]]
                                (rarest_class s) p
                            \<and> (int 1 < py_int ((\<lambda>x. x) (of_int 2 * (1 / 2)))
                                 \<or> own_rarest_class [0 \<mapsto> [2, 2], 1 \<mapsto> [1, 2], 2 \<mapsto> [1, 1, 2]]
                                      2 p \<noteq> rarest_class s))
                    pool of
               Some p \<Rightarrow> p
             | None \<Rightarrow>
                 (case find (holds_class [0 \<mapsto> [2, 2], 1 \<mapsto> [1, 2], 2 \<mapsto> [1, 1, 2]]
                               (rarest_class s)) (rev pool) of
                    Some p \<Rightarrow> p
                  | None \<Rightarrow> hd pool)))"
proof (intro conjI)
  show "\<exists>s batch g'.
     sample_loop (\<lambda>g xs. (rotate g xs, Suc g)) (\<lambda>x. x) [0, 1, 2::nat]
        [0 \<mapsto> [2, 2], 1 \<mapsto> [1, 2], 2 \<mapsto> [1, 1, 2]] 2 2 (1 / 2) 1 0
        \<lparr>rng = snd ((\<lambda>g lo hi. (lo + int g mod (hi - lo), Suc g)) (0::nat) 1 (2 + 1)),
         class_counts = replicate (nat 2) 0, not_picked = [0, 1, 2],
         batch_patients = [],
         rarest_class = fst ((\<lambda>g lo hi. (lo + int g mod (hi - lo), Suc g)) (0::nat) 1 (2 + 1))\<rparr>
       = Inr s
     \<and> length (batch_patients s) = 1
     \<and> Inr (rarest_class s) =
         (if (1::nat) = 0
          then Inr (fst ((\<lambda>g lo hi. (lo + int g mod (hi - lo), Suc g)) (0::nat) 1 (2 + 1)))
          else map_sum id (\<lambda>a. int a + 1) (argmin (class_counts s)))
     \<and> get_class_balanced_patients (\<lambda>g lo hi. (lo + int g mod (hi - lo), Suc g))
          (\<lambda>g xs. (rotate g xs, Suc g)) (\<lambda>x. x) (0::nat) [0, 1, 2::nat]
          [0 \<mapsto> [2, 2], 1 \<mapsto> [1, 2], 2 \<mapsto> [1, 1, 2]] 2 2 (1 / 2) = Inr (batch, g')
     \<and> length batch = nat 2
     \<and> take 1 batch = batch_patients s
     \<and> batch ! 1 =
         (let pool = fst ((\<lambda>g xs. (rotate g xs, Suc g)) (rng s)
                            (if not_picked s = [] then [0, 1, 2] else not_picked s))
          in case find (\<lambda>p. holds_class [0 \<mapsto> [2, 2], 1 \<mapsto> [1, 2], 2 \<mapsto> [1, 1, 2]]
                                (rarest_class s) p
                            \<and> (int 1 < py_int ((\<lambda>x. x) (of_int 2 * (1 / 2)))
                                 \<or> own_rarest_class [0 \<mapsto> [2, 2], 1 \<mapsto> [1, 2], 2 \<mapsto> [1, 1, 2]]
                                      2 p \<noteq> rarest_class s))
                    pool of
               Some p \<Rightarrow> p
             | None \<Rightarrow>
                 (case find (holds_class [0 \<mapsto> [2, 2], 1 \<mapsto> [1, 2], 2 \<mapsto> [1, 1, 2]]
                               (rarest_class s)) (rev pool) of
                    Some p \<Rightarrow> p
                  | None \<Rightarrow> hd pool))"
    by (rule balanced_sampler_slot_pick) (simp_all add: dom_def)
qed (simp_all add: dom_def)

text \<open>
  The claim as stated fails. Two patients hold the classes 1 and 2 once each, the
  rarest class is 1 and \<open>random_ratio\<close> is 0, so no slot count is below
  \<open>random_ratio * batch_size\<close> and the claim has the first patient accepted. The code
  goes on scanning, because the patient's own rarest class is the global one, and ends
  with the last patient that holds class 1: with an initial draw of 1 and a shuffle
  that leaves the pool as it is, the sampler puts patient 1 in slot 0.
\<close>

theorem scan_not_picked_keeps_last_found:
  "scan_not_picked [0 \<mapsto> [1, 2], 1 \<mapsto> [1, 2]] 2 1 0 (py_int (of_int 2 * 0)) [0, 1] 0 = Inr (1::nat)
   \<and> claimed_pick [0 \<mapsto> [1, 2], 1 \<mapsto> [1, 2]] 2 1 0 2 0 [0, 1] = (0::nat)
   \<and> get_class_balanced_patients (\<lambda>g lo hi. (lo, g)) (\<lambda>g xs. (xs, g)) (\<lambda>x. x) ()
        [0, 1::nat] [0 \<mapsto> [1, 2], 1 \<mapsto> [1, 2]] 2 2 0 = Inr ([1, 0], ())"
  by code_simp

section \<open>Properties of get_patch_crop_coords\<close>

text \<open>
  Claim C2 does not hold of the code. When the overlap of the first grid is below
  \<open>min_overlap\<close> the code adds one patch and does not look at the overlap again: an
  axis of 100 voxels tiled with patches of 10 and \<open>min_overlap = 9\<close> gets 11 patches
  whose neighbours overlap by one voxel. And an odd patch size puts the patch centres
  on halves, which \<open>np.round\<close> moves to the even neighbour: an axis of 11 voxels tiled
  with patches of 5 (overlap 2 on the grid, \<open>min_overlap = 2\<close>) ends with the patch
  \<open>[5, 10)\<close>, so voxel 10 is in no patch. Both images have a second axis that one patch
  covers.
\<close>

theorem patch_grid_overlap_and_cover_fail:
  "get_patch_crop_coords [100, 10] [10, 10] 9 =
     Inr [[0, 10, 0, 10], [9, 19, 0, 10], [18, 28, 0, 10], [27, 37, 0, 10],
          [36, 46, 0, 10], [45, 55, 0, 10], [54, 64, 0, 10], [63, 73, 0, 10],
          [72, 82, 0, 10], [81, 91, 0, 10], [90, 100, 0, 10]]
   \<and> get_patch_crop_coords [11, 5] [5, 5] 2 =
     Inr [[0, 4, 0, 5], [3, 8, 0, 5], [5, 10, 0, 5]]"
  by code_simp

section \<open>Properties of pad_nd_image\<close>

lemma indices_iff: "idx \<in> set (indices sh) \<longleftrightarrow> list_all2 (<) idx sh"
proof (induction sh arbitrary: idx)
  case Nil
  then show ?case by auto
next
  case (Cons n ns)
  show ?case
  proof (cases idx)
    case Nil
    then show ?thesis by auto
  next
    case (Cons i rest)
    have "i # rest \<in> set (indices (n # ns)) \<longleftrightarrow> i < n \<and> rest \<in> set (indices ns)"
      by auto
    then show ?thesis
      using Cons by (simp add: Cons.IH)
  qed
qed

lemma halves_nonneg:
  fixes d :: int
  assumes "0 \<le> d"
  shows "0 \<le> d div 2" and "0 \<le> d div 2 + d mod 2"
    and "nat (d div 2) + nat (d div 2 + d mod 2) = nat d"
proof -
  show a: "0 \<le> d div 2" using assms by presburger
  show b: "0 \<le> d div 2 + d mod 2" using assms by presburger
  have "d div 2 + (d div 2 + d mod 2) = d" by presburger
  then show "nat (d div 2) + nat (d div 2 + d mod 2) = nat d"
    using a b by (metis nat_add_distrib)
qed

lemma pad_pair_nonneg: "pad_pair tn = (b, a) \<Longrightarrow> 0 \<le> b \<and> 0 \<le> a"
proof -
  obtain t n where tn: "tn = (t, n)" by (cases tn)
  have d: "0 \<le> max t (int n) - int n" by simp
  assume "pad_pair tn = (b, a)"
  then show ?thesis
    using halves_nonneg(1,2) [OF d] by (auto simp: pad_pair_def Let_def tn)
qed

lemma pad_pair_sum:
  assumes "pad_pair (t, n) = (b, a)"
  shows "n + nat b + nat a = nat (max t (int n))"
proof -
  have d: "0 \<le> max t (int n) - int n" by simp
  have "nat b + nat a = nat (max t (int n) - int n)"
    using halves_nonneg(3) [OF d] assms by (auto simp: pad_pair_def Let_def)
  then show ?thesis by (simp add: nat_diff_distrib')
qed

lemma pad_pair_zero: "t \<le> int n \<Longrightarrow> pad_pair (t, n) = (0, 0)"
  by (simp add: pad_pair_def max_def)

lemma crop_shape_eq:
  assumes "length sh = length pads" and "list_all (\<lambda>(b, a). 0 \<le> b \<and> 0 \<le> a) pads"
  shows "map (\<lambda>(rn, (start, stop)). slice_bound rn stop - slice_bound rn start)
           (zip (map (\<lambda>(n, (b, a)). n + nat b + nat a) (zip sh pads))
                (map (\<lambda>((b, a), rn). (b, int rn - a))
                   (zip pads (map (\<lambda>(n, (b, a)). n + nat b + nat a) (zip sh pads)))))
         = sh"
  using assms
  by (induction sh pads rule: list_induct2) (auto simp: slice_bound_def)

lemma crop_index_eq:
  assumes "list_all2 (<) idx sh" and "length sh = length pads"
    and "list_all (\<lambda>(b, a). 0 \<le> b \<and> 0 \<le> a) pads"
  shows "map (\<lambda>(i, (n, (b, a))). min (n - 1) (i - nat b))
           (zip (map (\<lambda>(i, (rn, (start, stop))). slice_bound rn start + i)
                   (zip idx
                      (zip (map (\<lambda>(n, (b, a)). n + nat b + nat a) (zip sh pads))
                           (map (\<lambda>((b, a), rn). (b, int rn - a))
                              (zip pads (map (\<lambda>(n, (b, a)). n + nat b + nat a) (zip sh pads)))))))
                (zip sh pads))
         = idx"
  using assms
proof (induction idx sh arbitrary: pads rule: list_all2_induct)
  case Nil
  then show ?case by simp
next
  case (Cons i idx n sh)
  then obtain b a pads' where p: "pads = (b, a) # pads'" by (cases pads) auto
  with Cons show ?case by (auto simp: slice_bound_def)
qed

lemma pad_shape_nopad:
  "length xs = k \<Longrightarrow>
     map (\<lambda>(n, (b, a)). n + nat b + nat a) (zip xs (replicate k (0, 0))) = xs"
  by (induction xs arbitrary: k) auto

lemma pad_shape_tail:
  "length T = length ns \<Longrightarrow>
     map (\<lambda>(n, (b, a)). n + nat b + nat a) (zip ns (map pad_pair (zip T ns)))
       = map (\<lambda>(t, n). nat (max t (int n))) (zip T ns)"
proof (induction T ns rule: list_induct2)
  case Nil
  then show ?case by simp
next
  case (Cons t T n ns)
  obtain b a where ba: "pad_pair (t, n) = (b, a)" by (cases "pad_pair (t, n)")
  show ?case using Cons pad_pair_sum [OF ba] by (simp add: ba)
qed

lemma difference_eq:
  "length T = length ns \<Longrightarrow>
     map (\<lambda>(x, y). x - y) (zip (map (\<lambda>(new, old). max new old) (zip T (map int ns))) (map int ns))
       = map (\<lambda>(t, n). max t (int n) - int n) (zip T ns)"
  by (induction T ns rule: list_induct2) simp_all

lemma zip_halves:
  "zip (map (\<lambda>d. d div 2) (map f xs)) (map (\<lambda>d. d div 2 + d mod 2) (map f xs))
     = map (\<lambda>x. (f x div 2, f x div 2 + f x mod 2)) xs"
  by (induction xs) simp_all

lemma no_empty_axis_padded:
  "length T = length ns \<Longrightarrow> list_all (\<lambda>(t, n). n = 0 \<longrightarrow> t \<le> 0) (zip T ns) \<Longrightarrow>
     \<not> list_ex (\<lambda>(n, (b, a)). n = 0 \<and> (b \<noteq> 0 \<or> a \<noteq> 0)) (zip ns (map pad_pair (zip T ns)))"
  by (induction T ns rule: list_induct2) (auto simp: pad_pair_zero)

lemma no_axis_padded_replicate:
  "\<not> list_ex (\<lambda>(n, (b, a)). n = 0 \<and> (b \<noteq> 0 \<or> a \<noteq> 0)) (zip xs (replicate k (0, 0)))"
proof (induction xs arbitrary: k)
  case Nil
  then show ?case by simp
next
  case (Cons x xs)
  then show ?case by (cases k) simp_all
qed

lemma pad_pairs_nonneg: "list_all (\<lambda>(b, a). 0 \<le> b \<and> 0 \<le> a) (map pad_pair xs)"
  using pad_pair_nonneg by (induction xs) (auto split: prod.splits)

text \<open>
  Claim C3, as amended. Let the target shape \<open>T\<close> have at least one entry and at
  most as many entries as the image has axes, and let no trailing axis that \<open>T\<close>
  enlarges be empty. Then \<open>pad_nd_image(image, new_shape=T, return_slicer=True)\<close>
  returns a pair \<open>(res, slicer)\<close>; indexing \<open>res\<close> with \<open>slicer\<close> gives an array of
  the shape of \<open>image\<close> with the entries of \<open>image\<close>; the leading axes of \<open>res\<close> are
  those of \<open>image\<close> and every trailing axis has the length \<open>max(T[d], image.shape[d])\<close>.
\<close>

theorem pad_nd_image_round_trip:
  assumes T: "T \<noteq> []" and len: "length T \<le> length (shape img)"
    and ne: "list_all (\<lambda>(t, n). n = 0 \<longrightarrow> t \<le> 0)
               (zip T (drop (length (shape img) - length T) (shape img)))"
  shows "\<exists>res slices cropped.
      pad_nd_image img (Some T) True None = Inr (res, Some slices) \<and>
      index_slices res slices = Inr cropped \<and> array_eq cropped img \<and>
      shape res = take (length (shape img) - length T) (shape img)
        @ map (\<lambda>(t, n). nat (max t (int n)))
            (zip T (drop (length (shape img) - length T) (shape img)))"
proof -
  define sh where "sh = shape img"
  define k where "k = length sh - length T"
  define ns where "ns = drop k sh"
  define pads where "pads = replicate k (0, 0) @ map pad_pair (zip T ns)"
  define rs where "rs = map (\<lambda>(n, (b, a)). n + nat b + nat a) (zip sh pads)"
  define sl where "sl = map (\<lambda>((b, a), rn). (b, int rn - a)) (zip pads rs)"
  define res where "res = \<lparr>shape = rs,
      elems = (\<lambda>idx. elems img (map (\<lambda>(i, (n, (b, a))). min (n - 1) (i - nat b))
                                (zip idx (zip sh pads))))\<rparr>"
  define cropped where "cropped = \<lparr>shape =
        map (\<lambda>(n, (start, stop)). slice_bound n stop - slice_bound n start) (zip rs sl)
          @ drop (length sl) rs,
      elems = (\<lambda>idx. elems res (map (\<lambda>(i, (n, (start, stop))). slice_bound n start + i)
                                (zip idx (zip rs sl)) @ drop (length sl) idx))\<rparr>"
  have lenT: "length T \<le> length sh" using len by (simp add: sh_def)
  have lenns: "length T = length ns" using lenT by (simp add: ns_def k_def)
  have lentk: "length (take k sh) = k" by (simp add: k_def)
  have lenp: "length sh = length pads"
    using lenT by (simp add: pads_def lenns [symmetric] k_def)
  have nonneg: "list_all (\<lambda>(b, a). 0 \<le> b \<and> 0 \<le> a) pads"
    using pad_pairs_nonneg [of "zip T ns"] by (auto simp: pads_def list_all_iff)
  have pne: "pads \<noteq> []" using T lenns by (auto simp: pads_def)
  have noneg: "\<not> list_ex (\<lambda>(below, above). below < 0 \<or> above < 0) pads"
    using nonneg by (auto simp: list_all_iff list_ex_iff)
  have "zip (take k sh @ ns) (replicate k (0, 0) @ map pad_pair (zip T ns))
      = zip (take k sh) (replicate k (0, 0)) @ zip ns (map pad_pair (zip T ns))"
    by (rule zip_append) (simp only: lentk length_replicate)
  moreover have "take k sh @ ns = sh" by (simp add: ns_def)
  ultimately have zipsplit:
    "zip sh pads = zip (take k sh) (replicate k (0, 0)) @ zip ns (map pad_pair (zip T ns))"
    by (simp add: pads_def)
  have ne': "list_all (\<lambda>(t, n). n = 0 \<longrightarrow> t \<le> 0) (zip T ns)"
    using ne by (simp add: ns_def k_def sh_def)
  have nozero: "\<not> list_ex (\<lambda>(n, (b, a)). n = 0 \<and> (b \<noteq> 0 \<or> a \<noteq> 0)) (zip sh pads)"
    unfolding zipsplit
    using no_empty_axis_padded [OF lenns ne'] no_axis_padded_replicate [of "take k sh" k]
    by simp
  have pad: "np_pad_edge img pads = Inr res"
    using pne noneg lenp nozero
    by (simp add: np_pad_edge_def res_def rs_def sh_def [symmetric] Let_def)
  define D where "D = map (\<lambda>(t, n). max t (int n) - int n) (zip T ns)"
  have e1: "slice_from (- int (length T)) (map int (shape img)) = map int ns"
    using T lenT by (simp add: slice_from_def ns_def k_def drop_map sh_def)
  have e2: "\<not> length ns < length T" using lenns by simp
  have e3: "\<And>xs. round_up_shape xs None = Inr xs" by (simp add: round_up_shape_def)
  have e4: "np_sub (map (\<lambda>(new, old). max new old) (zip T (map int ns))) (map int ns) = Inr D"
    using difference_eq [OF lenns] by (simp add: np_sub_def lenns [symmetric] D_def)
  have e5: "zip (map (\<lambda>d. d div 2) D) (map (\<lambda>d. d div 2 + d mod 2) D) = map pad_pair (zip T ns)"
    unfolding D_def zip_halves by (rule map_cong) (auto simp: pad_pair_def Let_def)
  have kk: "nat (int (length (shape img)) - int (length T)) = k"
    using lenT by (simp add: k_def sh_def)
  have e6: "replicate k (0, 0) @ map pad_pair (zip T ns) = pads" by (simp add: pads_def)
  have e7: "map (\<lambda>((below, above), n). (below, int n - above)) (zip pads (shape res)) = sl"
    by (simp add: sl_def res_def)
  have run: "pad_nd_image img (Some T) True None = Inr (res, Some sl)"
    by (simp add: pad_nd_image_def e1 e2 e3 e4 e5 e6 e7 kk pad Let_def)
  have lensl: "length sl = length sh"
    using lenp by (simp add: sl_def rs_def)
  have crop: "index_slices res sl = Inr cropped"
    using lensl lenp by (simp add: index_slices_def cropped_def res_def rs_def)
  have csh: "shape cropped = sh"
    using crop_shape_eq [OF lenp nonneg] lensl lenp
    by (simp add: cropped_def rs_def sl_def)
  have cel: "list_all (\<lambda>idx. elems cropped idx = elems img idx) (indices sh)"
    unfolding list_all_iff
  proof
    fix idx assume "idx \<in> set (indices sh)"
    then have v: "list_all2 (<) idx sh" by (simp add: indices_iff)
    then have li: "length idx = length sh" by (rule list_all2_lengthD)
    show "elems cropped idx = elems img idx"
      using crop_index_eq [OF v lenp nonneg] li lensl
      by (simp add: cropped_def res_def rs_def sl_def)
  qed
  have aeq: "array_eq cropped img"
    using csh cel by (simp add: array_eq_def sh_def)
  have "rs = take k sh @ map (\<lambda>(t, n). nat (max t (int n))) (zip T ns)"
    unfolding rs_def zipsplit
    by (simp add: pad_shape_nopad [OF lentk] pad_shape_tail [OF lenns])
  then have rsh: "shape res = take (length (shape img) - length T) (shape img)
        @ map (\<lambda>(t, n). nat (max t (int n)))
            (zip T (drop (length (shape img) - length T) (shape img)))"
    by (simp add: res_def ns_def k_def sh_def)
  from run crop aeq rsh show ?thesis by blast
qed

theorem pad_nd_image_round_trip_witness:
  "[5] \<noteq> ([] :: int list) \<and>
   length [5 :: int] \<le> length (shape \<lparr>shape = [2, 3], elems = (\<lambda>idx. 10 * (idx ! 0) + idx ! 1 :: nat)\<rparr>) \<and>
   list_all (\<lambda>(t, n). n = 0 \<longrightarrow> t \<le> 0)
     (zip [5 :: int]
        (drop (length (shape \<lparr>shape = [2, 3], elems = (\<lambda>idx. 10 * (idx ! 0) + idx ! 1 :: nat)\<rparr>)
                 - length [5 :: int])
           (shape \<lparr>shape = [2, 3], elems = (\<lambda>idx. 10 * (idx ! 0) + idx ! 1 :: nat)\<rparr>))) \<and>
   (\<exists>res slices cropped.
      pad_nd_image \<lparr>shape = [2, 3], elems = (\<lambda>idx. 10 * (idx ! 0) + idx ! 1 :: nat)\<rparr>
          (Some [5]) True None = Inr (res, Some slices) \<and>
      index_slices res slices = Inr cropped \<and>
      array_eq cropped \<lparr>shape = [2, 3], elems = (\<lambda>idx. 10 * (idx ! 0) + idx ! 1 :: nat)\<rparr> \<and>
      shape res = [2, 5])"
  using pad_nd_image_round_trip
    [of "[5]" "\<lparr>shape = [2, 3], elems = (\<lambda>idx. 10 * (idx ! 0) + idx ! 1 :: nat)\<rparr>"]
  by simp

text \<open>
  The claim as stated fails for a target shape with more entries than the image has
  axes: \<open>old_shape[i]\<close> is read beyond the shape of the image and the call raises
  IndexError instead of returning a pair.
\<close>

theorem pad_nd_image_target_longer_than_shape:
  "pad_nd_image \<lparr>shape = [2], elems = (\<lambda>idx. idx ! 0 :: nat)\<rparr> (Some [3, 3]) True None
     = Inl IndexError"
  by (simp add: pad_nd_image_def slice_from_def)

section \<open>Properties of convert_seg_to_bounding_box_coordinates\<close>

lemma Min_zero_nat: "finite A \<Longrightarrow> (0::nat) \<in> A \<Longrightarrow> Min A = 0"
  by (metis Min_le le_zero_eq)

lemma append_roi_items_class:
  "append_roi_items dd b rix names acc = Inr acc' \<Longrightarrow>
     list_all class_ok (acc ''class_targets'') \<Longrightarrow>
     (\<And>v. lookup_roi_item dd ''class_targets'' b rix = Inr v \<Longrightarrow> class_ok v) \<Longrightarrow>
     list_all class_ok (acc' ''class_targets'')"
proof (induction names arbitrary: acc)
  case Nil
  then show ?case by simp
next
  case (Cons name names)
  from Cons.prems(1) obtain v where v: "lookup_roi_item dd name b rix = Inr v"
      and rest: "append_roi_items dd b rix names (acc(name := acc name @ [v])) = Inr acc'"
    by (auto split: sum.splits)
  have "list_all class_ok ((acc(name := acc name @ [v])) ''class_targets'')"
    using Cons.prems(2,3) v by auto
  from Cons.IH [OF rest this Cons.prems(3)] show ?case .
qed

lemma assert_class_target_ok:
  "assert_class_target dd b rix = Inr u \<Longrightarrow>
     \<exists>c. lookup_roi_item dd ''class_targets'' b rix = Inr (PInt c) \<and> 1 \<le> c"
  by (auto simp: assert_class_target_def split: sum.splits pyval.splits if_splits)

lemma roi_step_cases:
  assumes "roi_step dd dims keys cs seg_b b rix acc = Inr acc'"
  shows "(\<not> any_nonzero (roi_mask seg_b (int rix + 1))
            \<and> p_coords_list acc' = p_coords_list acc
            \<and> p_roi_items_lists acc' = p_roi_items_lists acc)
         \<or> (any_nonzero (roi_mask seg_b (int rix + 1))
            \<and> (\<exists>box item_lists u.
                  coord_list dims (roi_mask seg_b (int rix + 1)) = Inr box
                  \<and> append_roi_items dd b rix keys (p_roi_items_lists acc) = Inr item_lists
                  \<and> assert_class_target dd b rix = Inr u
                  \<and> p_coords_list acc' = p_coords_list acc @ [box]
                  \<and> p_roi_items_lists acc' = item_lists))"
  using assms
  by (auto simp: roi_step_def Let_def split: sum.splits if_splits pyval.splits)

lemma roi_step_props:
  assumes "roi_step dd dims keys cs seg_b b rix acc = Inr acc'"
  shows "(if any_nonzero (roi_mask seg_b (int rix + 1))
          then (\<exists>box. coord_list dims (roi_mask seg_b (int rix + 1)) = Inr box
                  \<and> p_coords_list acc' = p_coords_list acc @ [box])
               \<and> (\<exists>c. lookup_roi_item dd ''class_targets'' b rix = Inr (PInt c) \<and> 1 \<le> c)
          else p_coords_list acc' = p_coords_list acc)"
    and "list_all class_ok (p_roi_items_lists acc ''class_targets'')
         \<Longrightarrow> list_all class_ok (p_roi_items_lists acc' ''class_targets'')"
proof -
  let ?r = "roi_mask seg_b (int rix + 1)"
  show "(if any_nonzero ?r
          then (\<exists>box. coord_list dims ?r = Inr box
                  \<and> p_coords_list acc' = p_coords_list acc @ [box])
               \<and> (\<exists>c. lookup_roi_item dd ''class_targets'' b rix = Inr (PInt c) \<and> 1 \<le> c)
          else p_coords_list acc' = p_coords_list acc)"
    using roi_step_cases [OF assms] assert_class_target_ok [of dd b rix] by auto
  assume ok: "list_all class_ok (p_roi_items_lists acc ''class_targets'')"
  from roi_step_cases [OF assms]
  show "list_all class_ok (p_roi_items_lists acc' ''class_targets'')"
  proof (elim disjE conjE exE)
    assume "p_roi_items_lists acc' = p_roi_items_lists acc"
    then show ?thesis using ok by simp
  next
    fix box item_lists u
    assume il: "append_roi_items dd b rix keys (p_roi_items_lists acc) = Inr item_lists"
      and as: "assert_class_target dd b rix = Inr u"
      and acc': "p_roi_items_lists acc' = item_lists"
    from assert_class_target_ok [OF as]
    have "\<And>v. lookup_roi_item dd ''class_targets'' b rix = Inr v \<Longrightarrow> class_ok v"
      by (auto simp: class_ok_def)
    from append_roi_items_class [OF il ok this] show ?thesis by (simp add: acc')
  qed
qed

lemma roi_loop_props:
  "roi_loop dd dims keys cs seg_b b rixs acc = Inr acc' \<Longrightarrow>
     (\<exists>boxes. p_coords_list acc' = p_coords_list acc @ boxes
        \<and> list_all2 (\<lambda>rix box. coord_list dims (roi_mask seg_b (int rix + 1)) = Inr box)
             (filter (survived seg_b) rixs) boxes)
     \<and> (\<forall>rix\<in>set rixs. survived seg_b rix \<longrightarrow>
           (\<exists>c. lookup_roi_item dd ''class_targets'' b rix = Inr (PInt c) \<and> 1 \<le> c))
     \<and> (list_all class_ok (p_roi_items_lists acc ''class_targets'')
           \<longrightarrow> list_all class_ok (p_roi_items_lists acc' ''class_targets''))"
proof (induction rixs arbitrary: acc)
  case Nil
  then show ?case by simp
next
  case (Cons rix rixs)
  from Cons.prems obtain acc1 where
    st: "roi_step dd dims keys cs seg_b b rix acc = Inr acc1"
    and lp: "roi_loop dd dims keys cs seg_b b rixs acc1 = Inr acc'"
    by (auto split: sum.splits)
  note p1 = roi_step_props [OF st]
  note IH = Cons.IH [OF lp]
  from IH obtain boxes where
    bx: "p_coords_list acc' = p_coords_list acc1 @ boxes"
      "list_all2 (\<lambda>rix box. coord_list dims (roi_mask seg_b (int rix + 1)) = Inr box)
             (filter (survived seg_b) rixs) boxes"
    by blast
  have a: "\<exists>boxes. p_coords_list acc' = p_coords_list acc @ boxes
        \<and> list_all2 (\<lambda>rix box. coord_list dims (roi_mask seg_b (int rix + 1)) = Inr box)
             (filter (survived seg_b) (rix # rixs)) boxes"
  proof (cases "survived seg_b rix")
    case True
    with p1(1) obtain box where
      "coord_list dims (roi_mask seg_b (int rix + 1)) = Inr box"
      "p_coords_list acc1 = p_coords_list acc @ [box]"
      by (auto simp: survived_def)
    with bx True show ?thesis
      by (intro exI [of _ "box # boxes"]) simp
  next
    case False
    with p1(1) have "p_coords_list acc1 = p_coords_list acc"
      by (simp add: survived_def)
    with bx False show ?thesis by auto
  qed
  have b: "\<forall>rix\<in>set (rix # rixs). survived seg_b rix \<longrightarrow>
           (\<exists>c. lookup_roi_item dd ''class_targets'' b rix = Inr (PInt c) \<and> 1 \<le> c)"
    using p1(1) IH by (auto simp: survived_def)
  have c: "list_all class_ok (p_roi_items_lists acc ''class_targets'')
           \<longrightarrow> list_all class_ok (p_roi_items_lists acc' ''class_targets'')"
    using p1(2) IH by blast
  from a b c show ?case by blast
qed

lemma append_sample_items_all:
  "list_all P (acc name) \<Longrightarrow> P (new name) \<Longrightarrow>
     list_all P (append_sample_items names new acc name)"
proof (induction names arbitrary: acc)
  case Nil
  then show ?case by simp
next
  case (Cons a names)
  define acc1 where "acc1 = acc(a := acc a @ [new a])"
  have "list_all P (acc1 name)"
    using Cons.prems by (auto simp: acc1_def)
  with Cons.IH [of acc1] Cons.prems(2)
  have "list_all P (append_sample_items names new acc1 name)" by blast
  then show ?case unfolding acc1_def by simp
qed

lemma store_roi_items_at:
  "store_roi_items names item_lists dd name =
     (if name \<in> set names then Some (PList (item_lists name)) else dd name)"
  by (induction names arbitrary: dd) auto

lemma sample_step_props:
  assumes "sample_step lb dims keys gr cs seg_b b st = Inr st'"
  shows "\<exists>boxes. bb_list st' = bb_list st @ [boxes] \<and> sample_boxes lb dims gr seg_b boxes"
    and "any_nonzero seg_b \<Longrightarrow> rix < n_cands_of lb gr seg_b \<Longrightarrow> survived seg_b rix \<Longrightarrow>
           \<exists>c. class_target_of (dd_items st) gr b rix = Inr (PInt c) \<and> 1 \<le> c"
    and "list_all sample_classes_ok (roi_items st ''class_targets'')
           \<Longrightarrow> list_all sample_classes_ok (roi_items st' ''class_targets'')"
    and "j \<noteq> b \<Longrightarrow> class_target_of (dd_items st') gr j rix' = class_target_of (dd_items st) gr j rix'"
proof -
  let ?acc0 = "\<lparr>p_coords_list = [], p_roi_masks_list = [],
                      p_roi_items_lists = (\<lambda>name. []), out_seg_b = seg_b\<rparr>"
  have empty: "\<not> any_nonzero seg_b \<Longrightarrow>
      st' = st\<lparr>bb_list := bb_list st @ [[]],
                masks_list := masks_list st @ [[\<lparr>shape = shape seg_b, elems = (\<lambda>idx. 0)\<rparr>]],
                roi_items := append_sample_items keys (\<lambda>name. PList []) (roi_items st),
                out_seg := out_seg st @ [seg_b]\<rparr>"
    using assms by (simp add: sample_step_def)
  have full: "any_nonzero seg_b \<Longrightarrow>
      \<exists>dd acc. roi_loop dd dims keys cs seg_b b [0..<n_cands_of lb gr seg_b] ?acc0 = Inr acc
        \<and> bb_list st' = bb_list st @ [p_coords_list acc]
        \<and> roi_items st' = append_sample_items keys (\<lambda>name. PList (p_roi_items_lists acc name))
             (roi_items st)
        \<and> dd_items st' = dd
        \<and> (if gr then
              (\<exists>xs vb. dd_items st ''class_targets'' = Some (PList xs) \<and> b < length xs
                  \<and> vb = xs ! b
                  \<and> dd = (dd_items st)(''class_targets'' \<mapsto>
                            PList (xs[b := PList (replicate (n_cands_of lb gr seg_b) vb)])))
            else dd = dd_items st)"
    using assms
    by (auto simp: sample_step_def n_cands_of_def py_getitem_def py_setitem_def Let_def
        split: sum.splits if_splits option.splits prod.splits pyval.splits)
  show "\<exists>boxes. bb_list st' = bb_list st @ [boxes] \<and> sample_boxes lb dims gr seg_b boxes"
  proof (cases "any_nonzero seg_b")
    case False
    with empty show ?thesis by (simp add: sample_boxes_def)
  next
    case True
    from full [OF True] obtain dd acc where
      lp: "roi_loop dd dims keys cs seg_b b [0..<n_cands_of lb gr seg_b] ?acc0 = Inr acc"
      and bb: "bb_list st' = bb_list st @ [p_coords_list acc]"
      by blast
    from roi_loop_props [OF lp] have
      "list_all2 (\<lambda>rix box. coord_list dims (roi_mask seg_b (int rix + 1)) = Inr box)
         (filter (survived seg_b) [0..<n_cands_of lb gr seg_b]) (p_coords_list acc)"
      by auto
    with bb True show ?thesis by (simp add: sample_boxes_def)
  qed
  show "\<exists>c. class_target_of (dd_items st) gr b rix = Inr (PInt c) \<and> 1 \<le> c"
    if nz: "any_nonzero seg_b" and rix: "rix < n_cands_of lb gr seg_b" and sv: "survived seg_b rix"
  proof -
    from full [OF nz] obtain dd acc where
      lp: "roi_loop dd dims keys cs seg_b b [0..<n_cands_of lb gr seg_b] ?acc0 = Inr acc"
      and dd: "if gr then
              (\<exists>xs vb. dd_items st ''class_targets'' = Some (PList xs) \<and> b < length xs
                  \<and> vb = xs ! b
                  \<and> dd = (dd_items st)(''class_targets'' \<mapsto>
                            PList (xs[b := PList (replicate (n_cands_of lb gr seg_b) vb)])))
            else dd = dd_items st"
      by blast
    from roi_loop_props [OF lp] rix sv obtain c where
      c: "lookup_roi_item dd ''class_targets'' b rix = Inr (PInt c)" "1 \<le> c"
      by auto
    show ?thesis
    proof (cases gr)
      case False
      with dd c show ?thesis by (auto simp: class_target_of_def)
    next
      case True
      with dd obtain xs where xs: "dd_items st ''class_targets'' = Some (PList xs)" "b < length xs"
        "dd = (dd_items st)(''class_targets'' \<mapsto>
                 PList (xs[b := PList (replicate (n_cands_of lb gr seg_b) (xs ! b))]))"
        by auto
      have "lookup_roi_item dd ''class_targets'' b rix = Inr (xs ! b)"
        using xs rix by (simp add: lookup_roi_item_def py_getitem_def)
      with c(1) have "xs ! b = PInt c" by simp
      with c(2) xs(1,2) True show ?thesis
        by (simp add: class_target_of_def py_getitem_def)
    qed
  qed
  show "list_all sample_classes_ok (roi_items st' ''class_targets'')"
    if ok: "list_all sample_classes_ok (roi_items st ''class_targets'')"
  proof (cases "any_nonzero seg_b")
    case False
    from empty [OF False] have "roi_items st' = append_sample_items keys (\<lambda>name. PList []) (roi_items st)"
      by simp
    then show ?thesis
      using append_sample_items_all [of sample_classes_ok "roi_items st" "''class_targets''" "\<lambda>name. PList []" keys] ok
      by (simp add: sample_classes_ok_def)
  next
    case True
    from full [OF True] obtain dd acc where
      lp: "roi_loop dd dims keys cs seg_b b [0..<n_cands_of lb gr seg_b] ?acc0 = Inr acc"
      and ri: "roi_items st' = append_sample_items keys (\<lambda>name. PList (p_roi_items_lists acc name))
             (roi_items st)"
      by blast
    from roi_loop_props [OF lp] have "list_all class_ok (p_roi_items_lists acc ''class_targets'')"
      by simp
    then have "sample_classes_ok (PList (p_roi_items_lists acc ''class_targets''))"
      by (simp add: sample_classes_ok_def)
    with append_sample_items_all [of sample_classes_ok "roi_items st" "''class_targets''"
        "\<lambda>name. PList (p_roi_items_lists acc name)" keys] ok ri
    show ?thesis by simp
  qed
  show "class_target_of (dd_items st') gr j rix' = class_target_of (dd_items st) gr j rix'"
    if j: "j \<noteq> b"
  proof (cases "any_nonzero seg_b")
    case False
    with empty show ?thesis by simp
  next
    case True
    from full [OF True] j show ?thesis
      by (auto simp: class_target_of_def py_getitem_def split: if_splits)
  qed
qed

lemma batch_loop_props:
  "batch_loop lb dims keys gr cs segs b0 st = Inr st' \<Longrightarrow>
     (\<exists>new. bb_list st' = bb_list st @ new \<and> list_all2 (sample_boxes lb dims gr) segs new)
     \<and> (\<forall>j rix. j < length segs \<and> rix < n_cands_of lb gr (segs ! j) \<and> survived (segs ! j) rix
           \<and> any_nonzero (segs ! j)
           \<longrightarrow> (\<exists>c. class_target_of (dd_items st) gr (b0 + j) rix = Inr (PInt c) \<and> 1 \<le> c))
     \<and> (list_all sample_classes_ok (roi_items st ''class_targets'')
           \<longrightarrow> list_all sample_classes_ok (roi_items st' ''class_targets''))"
proof (induction segs arbitrary: b0 st)
  case Nil
  then show ?case by simp
next
  case (Cons seg_b segs)
  from Cons.prems obtain st1 where
    s1: "sample_step lb dims keys gr cs seg_b b0 st = Inr st1"
    and lp: "batch_loop lb dims keys gr cs segs (Suc b0) st1 = Inr st'"
    by (auto split: sum.splits)
  note p = sample_step_props [OF s1]
  note IH = Cons.IH [OF lp]
  from p(1) obtain boxes where bx: "bb_list st1 = bb_list st @ [boxes]"
      "sample_boxes lb dims gr seg_b boxes" by blast
  from IH obtain new where nw: "bb_list st' = bb_list st1 @ new"
      "list_all2 (sample_boxes lb dims gr) segs new" by blast
  have a: "\<exists>new. bb_list st' = bb_list st @ new
      \<and> list_all2 (sample_boxes lb dims gr) (seg_b # segs) new"
    using bx nw by (intro exI [of _ "boxes # new"]) simp
  have b: "\<forall>j rix. j < length (seg_b # segs) \<and> rix < n_cands_of lb gr ((seg_b # segs) ! j)
           \<and> survived ((seg_b # segs) ! j) rix \<and> any_nonzero ((seg_b # segs) ! j)
           \<longrightarrow> (\<exists>c. class_target_of (dd_items st) gr (b0 + j) rix = Inr (PInt c) \<and> 1 \<le> c)"
  proof (intro allI impI)
    fix j rix
    assume h: "j < length (seg_b # segs) \<and> rix < n_cands_of lb gr ((seg_b # segs) ! j)
           \<and> survived ((seg_b # segs) ! j) rix \<and> any_nonzero ((seg_b # segs) ! j)"
    show "\<exists>c. class_target_of (dd_items st) gr (b0 + j) rix = Inr (PInt c) \<and> 1 \<le> c"
    proof (cases j)
      case 0
      with h p(2) [of rix] show ?thesis by simp
    next
      case (Suc j')
      with h IH have "\<exists>c. class_target_of (dd_items st1) gr (Suc b0 + j') rix = Inr (PInt c) \<and> 1 \<le> c"
        by simp
      moreover have "class_target_of (dd_items st1) gr (Suc b0 + j') rix
          = class_target_of (dd_items st) gr (Suc b0 + j') rix"
        by (rule p(4)) simp
      ultimately show ?thesis using Suc by simp
    qed
  qed
  have c: "list_all sample_classes_ok (roi_items st ''class_targets'')
           \<longrightarrow> list_all sample_classes_ok (roi_items st' ''class_targets'')"
    using p(3) IH by blast
  from a b c show ?case by blast
qed

lemma survived_nonzero:
  assumes "survived seg_b rix"
  shows "any_nonzero seg_b"
proof -
  from assms obtain idx where i: "idx \<in> set (indices (shape seg_b))"
      "elems seg_b idx = int rix + 1"
    by (auto simp: survived_def any_nonzero_def argwhere_def roi_mask_def filter_empty_conv
        split: if_splits)
  then have "elems seg_b idx \<noteq> 0" by simp
  with i(1) show ?thesis
    by (auto simp: any_nonzero_def argwhere_def filter_empty_conv)
qed


lemma convert_props:
  assumes run: "convert_seg_to_bounding_box_coordinates lb dd dims keys gr cs = Inr dd'"
  shows "\<exists>boxes. bb_target dd' = Some boxes \<and> list_all2 (sample_boxes lb dims gr) (seg dd) boxes"
    and "b < length (seg dd) \<Longrightarrow> rix < n_cands_of lb gr (seg dd ! b) \<Longrightarrow>
           survived (seg dd ! b) rix \<Longrightarrow>
           \<exists>c. class_target_of (items dd) gr b rix = Inr (PInt c) \<and> 1 \<le> c"
    and "''class_targets'' \<in> set keys \<Longrightarrow>
           \<exists>per_sample. items dd' ''class_targets'' = Some (PList per_sample)
              \<and> list_all sample_classes_ok per_sample"
proof -
  let ?st0 = "\<lparr>dd_items = items dd, bb_list = [], masks_list = [],
              roi_items = (\<lambda>name. []), out_seg = []\<rparr>"
  from run obtain st where
    lp: "batch_loop lb dims keys gr cs (seg dd) 0 ?st0 = Inr st"
    and dd': "dd' = dd\<lparr>bb_target := Some (bb_list st), roi_masks := Some (masks_list st),
                      seg := out_seg st,
                      items := store_roi_items keys (roi_items st)
                                 (if gr then (dd_items st)(''class_targets'' := None)
                                  else dd_items st)\<rparr>"
    by (auto simp: convert_seg_to_bounding_box_coordinates_def Let_def split: sum.splits)
  note p = batch_loop_props [OF lp]
  show "\<exists>boxes. bb_target dd' = Some boxes \<and> list_all2 (sample_boxes lb dims gr) (seg dd) boxes"
    using p by (auto simp: dd')
  show "\<exists>c. class_target_of (items dd) gr b rix = Inr (PInt c) \<and> 1 \<le> c"
    if "b < length (seg dd)" "rix < n_cands_of lb gr (seg dd ! b)" "survived (seg dd ! b) rix"
    using p that survived_nonzero [OF that(3)] by force
  show "\<exists>per_sample. items dd' ''class_targets'' = Some (PList per_sample)
              \<and> list_all sample_classes_ok per_sample"
    if "''class_targets'' \<in> set keys"
    using p that by (simp add: dd' store_roi_items_at)
qed

lemma list_all2_left: "list_all2 P xs ys \<Longrightarrow> x \<in> set xs \<Longrightarrow> \<exists>y\<in>set ys. P x y"
  by (induction rule: list_all2_induct) auto

lemma list_all2_right: "list_all2 P xs ys \<Longrightarrow> y \<in> set ys \<Longrightarrow> \<exists>x\<in>set xs. P x y"
  by (induction rule: list_all2_induct) auto

lemma coord_list_formula:
  assumes "coord_list dims r = Inr box"
  shows "box = [int (Min (set (map (\<lambda>idx. idx ! 1) (argwhere r)))) - 1,
                int (Min (set (map (\<lambda>idx. idx ! 2) (argwhere r)))) - 1,
                int (Max (set (map (\<lambda>idx. idx ! 1) (argwhere r)))) + 1,
                int (Max (set (map (\<lambda>idx. idx ! 2) (argwhere r)))) + 1]
               @ (if dims = 3
                  then [int (Min (set (map (\<lambda>idx. idx ! 3) (argwhere r)))) - 1,
                        int (Max (set (map (\<lambda>idx. idx ! 3) (argwhere r)))) + 1]
                  else [])"
  using assms
  by (auto simp: coord_list_def ix_column_def Let_def split: if_splits sum.splits)

lemma list_all2_map_eq:
  "list_all2 (\<lambda>x y. y = f x) xs ys \<Longrightarrow> ys = map f xs"
  by (induction rule: list_all2_induct) auto

lemma filter_upt_nth:
  assumes "rix < n" and "P rix"
  shows "length (filter P [0..<rix]) < length (filter P [0..<n])"
    and "filter P [0..<n] ! length (filter P [0..<rix]) = rix"
proof -
  have "[0..<n] = [0..<rix] @ rix # [Suc rix..<n]"
    using assms(1) by (metis le_add1 less_imp_le_nat plus_nat.add_0 upt_add_eq_append upt_conv_Cons le_add_diff_inverse)
  then have f: "filter P [0..<n] = filter P [0..<rix] @ rix # filter P [Suc rix..<n]"
    using assms(2) by simp
  show "length (filter P [0..<rix]) < length (filter P [0..<n])"
    unfolding f by simp
  show "filter P [0..<n] ! length (filter P [0..<rix]) = rix"
    unfolding f by simp
qed


subsection \<open>Bounding boxes\<close>

text \<open>
  Claim C10. When the call returns, the boxes of sample \<open>b\<close> are, in the order of the
  instance ids, one box for every instance id below the candidate count whose mask
  \<open>seg == id\<close> has a voxel, and no other box. With \<open>ixs\<close> the indices of the voxels of
  the mask (\<open>np.argwhere\<close>, the axes being channel, y, x and z), the box is
  \<open>[min y - 1, min x - 1, max y + 1, max x + 1]\<close>, followed by
  \<open>[min z - 1, max z + 1]\<close> for \<open>dim == 3\<close>: the smallest index minus one and the largest
  index plus one per spatial axis, with no clipping to the array. So the box of an
  instance that has a voxel with index 0 on the axis y, x or (for \<open>dim == 3\<close>) z has
  the minimum coordinate \<open>-1\<close> on that axis; the box of instance \<open>rix\<close> stands at the
  position that counts the surviving instances before it.
\<close>

theorem bounding_box_margin_not_clamped:
  assumes run: "convert_seg_to_bounding_box_coordinates lb dd dims keys gr cs = Inr dd'"
    and b: "b < length (seg dd)"
  shows "\<exists>boxes. bb_target dd' = Some boxes \<and> length boxes = length (seg dd) \<and>
     boxes ! b =
       map (\<lambda>rix.
              (let ixs = argwhere (roi_mask (seg dd ! b) (int rix + 1));
                   ys = map (\<lambda>idx. idx ! 1) ixs;
                   xs = map (\<lambda>idx. idx ! 2) ixs;
                   zs = map (\<lambda>idx. idx ! 3) ixs
               in [int (Min (set ys)) - 1, int (Min (set xs)) - 1,
                   int (Max (set ys)) + 1, int (Max (set xs)) + 1]
                  @ (if dims = 3 then [int (Min (set zs)) - 1, int (Max (set zs)) + 1] else [])))
           (filter (\<lambda>rix. argwhere (roi_mask (seg dd ! b) (int rix + 1)) \<noteq> [])
              [0..<n_cands_of lb gr (seg dd ! b)]) \<and>
     (\<forall>rix idx. rix < n_cands_of lb gr (seg dd ! b)
          \<and> idx \<in> set (argwhere (roi_mask (seg dd ! b) (int rix + 1))) \<longrightarrow>
        (let k = length (filter (\<lambda>r. argwhere (roi_mask (seg dd ! b) (int r + 1)) \<noteq> []) [0..<rix])
         in k < length (boxes ! b)
            \<and> (idx ! 1 = 0 \<longrightarrow> boxes ! b ! k ! 0 = - 1)
            \<and> (idx ! 2 = 0 \<longrightarrow> boxes ! b ! k ! 1 = - 1)
            \<and> (dims = 3 \<and> idx ! 3 = 0 \<longrightarrow> boxes ! b ! k ! 4 = - 1)))"
proof -
  let ?s = "seg dd ! b"
  let ?n = "n_cands_of lb gr ?s"
  let ?S = "\<lambda>rix. argwhere (roi_mask ?s (int rix + 1)) \<noteq> []"
  let ?F = "\<lambda>rix. [int (Min (set (map (\<lambda>idx. idx ! 1) (argwhere (roi_mask ?s (int rix + 1)))))) - 1,
                int (Min (set (map (\<lambda>idx. idx ! 2) (argwhere (roi_mask ?s (int rix + 1)))))) - 1,
                int (Max (set (map (\<lambda>idx. idx ! 1) (argwhere (roi_mask ?s (int rix + 1)))))) + 1,
                int (Max (set (map (\<lambda>idx. idx ! 2) (argwhere (roi_mask ?s (int rix + 1)))))) + 1]
               @ (if dims = 3
                  then [int (Min (set (map (\<lambda>idx. idx ! 3) (argwhere (roi_mask ?s (int rix + 1)))))) - 1,
                        int (Max (set (map (\<lambda>idx. idx ! 3) (argwhere (roi_mask ?s (int rix + 1)))))) + 1]
                  else [])"
  have S: "survived ?s = ?S"
    by (rule ext) (simp add: survived_def any_nonzero_def)
  from convert_props(1) [OF run] obtain boxes where
    bx: "bb_target dd' = Some boxes" "list_all2 (sample_boxes lb dims gr) (seg dd) boxes"
    by blast
  have len: "length boxes = length (seg dd)"
    using bx(2) by (simp add: list_all2_lengthD)
  have sb: "sample_boxes lb dims gr ?s (boxes ! b)"
    using bx(2) b by (simp add: list_all2_nthD)
  have eq: "boxes ! b = map ?F (filter ?S [0..<?n])"
  proof (cases "any_nonzero ?s")
    case True
    with sb have "list_all2 (\<lambda>rix box. coord_list dims (roi_mask ?s (int rix + 1)) = Inr box)
        (filter ?S [0..<?n]) (boxes ! b)"
      by (simp add: sample_boxes_def S)
    then have "list_all2 (\<lambda>rix box. box = ?F rix) (filter ?S [0..<?n]) (boxes ! b)"
      by (rule list_all2_mono) (rule coord_list_formula)
    then show ?thesis by (rule list_all2_map_eq)
  next
    case False
    then have "\<not> survived ?s rix" for rix using survived_nonzero by blast
    then have "filter ?S [0..<?n] = []" by (simp add: S)
    with sb False show ?thesis by (simp add: sample_boxes_def)
  qed
  have low: "\<forall>rix idx. rix < ?n \<and> idx \<in> set (argwhere (roi_mask ?s (int rix + 1))) \<longrightarrow>
        (let k = length (filter ?S [0..<rix])
         in k < length (boxes ! b)
            \<and> (idx ! 1 = 0 \<longrightarrow> boxes ! b ! k ! 0 = - 1)
            \<and> (idx ! 2 = 0 \<longrightarrow> boxes ! b ! k ! 1 = - 1)
            \<and> (dims = 3 \<and> idx ! 3 = 0 \<longrightarrow> boxes ! b ! k ! 4 = - 1))"
  proof (intro allI impI)
    fix rix idx
    assume h: "rix < ?n \<and> idx \<in> set (argwhere (roi_mask ?s (int rix + 1)))"
    then have sv: "?S rix" by auto
    note k = filter_upt_nth [of rix ?n ?S, OF _ sv]
    have kl: "length (filter ?S [0..<rix]) < length (boxes ! b)"
      using k(1) h by (simp add: eq)
    have bk: "boxes ! b ! length (filter ?S [0..<rix]) = ?F rix"
      using k h by (simp add: eq)
    have m: "\<And>j. idx ! j = 0 \<Longrightarrow>
        Min (set (map (\<lambda>idx. idx ! j) (argwhere (roi_mask ?s (int rix + 1))))) = 0"
    proof -
      fix j assume "idx ! j = 0"
      then have "0 \<in> set (map (\<lambda>idx. idx ! j) (argwhere (roi_mask ?s (int rix + 1))))"
        using h by (metis (mono_tags, lifting) image_eqI list.set_map)
      then show "Min (set (map (\<lambda>idx. idx ! j) (argwhere (roi_mask ?s (int rix + 1))))) = 0"
        by (intro Min_zero_nat) simp_all
    qed
    show "let k = length (filter ?S [0..<rix])
         in k < length (boxes ! b)
            \<and> (idx ! 1 = 0 \<longrightarrow> boxes ! b ! k ! 0 = - 1)
            \<and> (idx ! 2 = 0 \<longrightarrow> boxes ! b ! k ! 1 = - 1)
            \<and> (dims = 3 \<and> idx ! 3 = 0 \<longrightarrow> boxes ! b ! k ! 4 = - 1)"
      unfolding Let_def bk using kl m [of 1] m [of 2] m [of 3] by simp
  qed
  from bx(1) len eq low show ?thesis unfolding Let_def by blast
qed

theorem bounding_box_margin_not_clamped_witness:
  "\<exists>dd'. convert_seg_to_bounding_box_coordinates (fixed_label (row_sample 0 0 0) 0)
            (volume_batch [[[1, 1], [1, 0]], [[0, 0], [0, 2]]] (PList [PList [PInt 3, PInt 5]]))
            3 [''class_targets''] False False
          = Inr dd'
      \<and> 0 < length (seg (volume_batch [[[1, 1], [1, 0]], [[0, 0], [0, 2]]]
                           (PList [PList [PInt 3, PInt 5]])))
      \<and> bb_target dd' = Some [[[- 1, - 1, 1, 2, - 1, 2], [0, 0, 2, 2, 0, 2]]]
      \<and> (\<exists>boxes. bb_target dd' = Some boxes
            \<and> boxes ! 0 =
                map (\<lambda>rix.
                      (let ixs = argwhere (roi_mask
                                   (seg (volume_batch [[[1, 1], [1, 0]], [[0, 0], [0, 2]]]
                                           (PList [PList [PInt 3, PInt 5]])) ! 0) (int rix + 1));
                           ys = map (\<lambda>idx. idx ! 1) ixs;
                           xs = map (\<lambda>idx. idx ! 2) ixs;
                           zs = map (\<lambda>idx. idx ! 3) ixs
                       in [int (Min (set ys)) - 1, int (Min (set xs)) - 1,
                           int (Max (set ys)) + 1, int (Max (set xs)) + 1]
                          @ (if (3::int) = 3
                             then [int (Min (set zs)) - 1, int (Max (set zs)) + 1] else [])))
                  (filter (\<lambda>rix. argwhere (roi_mask
                                   (seg (volume_batch [[[1, 1], [1, 0]], [[0, 0], [0, 2]]]
                                           (PList [PList [PInt 3, PInt 5]])) ! 0) (int rix + 1)) \<noteq> [])
                     [0..<n_cands_of (fixed_label (row_sample 0 0 0) 0) False
                            (seg (volume_batch [[[1, 1], [1, 0]], [[0, 0], [0, 2]]]
                                    (PList [PList [PInt 3, PInt 5]])) ! 0)]))"
proof -
  let ?lb = "fixed_label (row_sample 0 0 0) 0"
  let ?A = "volume_batch [[[1, 1], [1, 0]], [[0, 0], [0, 2]]] (PList [PList [PInt 3, PInt 5]])"
  have ev: "map_sum id bb_target
      (convert_seg_to_bounding_box_coordinates ?lb ?A 3 [''class_targets''] False False)
     = Inr (Some [[[- 1, - 1, 1, 2, - 1, 2], [0, 0, 2, 2, 0, 2]]])"
    by code_simp
  then obtain dd' where
    run: "convert_seg_to_bounding_box_coordinates ?lb ?A 3 [''class_targets''] False False = Inr dd'"
    and bb: "bb_target dd' = Some [[[- 1, - 1, 1, 2, - 1, 2], [0, 0, 2, 2, 0, 2]]]"
    by (cases "convert_seg_to_bounding_box_coordinates ?lb ?A 3 [''class_targets''] False False")
      auto
  have len: "0 < length (seg ?A)" by code_simp
  from bounding_box_margin_not_clamped [OF run len] run len bb
  show ?thesis by blast
qed

subsection \<open>Class attributes of the emitted ROIs\<close>




subsection \<open>ROIs in the mode get_rois_from_seg\<close>

text \<open>
  Claim C6 does not hold of the code. In the mode \<open>get_rois_from_seg\<close> the code labels
  the connected components, keeps their number and drops the labels: the ROI masks
  are still \<open>seg == 1, seg == 2, ...\<close> on the class map. A sample with two separate
  voxels of class 1 (labelled 1 and 2 by \<open>scipy.ndimage.label\<close>) gives one ROI whose
  box spans both components, with one class target; a sample with one component of
  class 2 gives no ROI at all. The class target of the sample is replicated once per
  component, as the claim says.
\<close>

theorem rois_from_seg_ignore_components:
  "map_sum id (\<lambda>d. (bb_target d, items d ''class_targets''))
       (convert_seg_to_bounding_box_coordinates
          (fixed_label (row_sample 1 0 2) 2)
          (row_batch 1 0 1 (PList [PInt 1])) 2 [''class_targets''] True False)
     = Inr (Some [[[- 1, - 1, 1, 3]]], Some (PList [PList [PInt 1]]))
   \<and> map_sum id (\<lambda>d. (bb_target d, items d ''class_targets''))
       (convert_seg_to_bounding_box_coordinates
          (fixed_label (row_sample 1 0 0) 1)
          (row_batch 2 0 0 (PList [PInt 2])) 2 [''class_targets''] True False)
     = Inr (Some [[]], Some (PList [PList []]))"
  by code_simp

end
